theory Spec2Isabelle
  imports Main "HOL-Library.Word"
begin

unbundle bit_operations_syntax

section \<open>JavaScript text operations used by the tools\<close>

text \<open>\<open>String.prototype.startsWith\<close> and \<open>String.prototype.includes\<close> on sequences of
  code units.\<close>

fun startsWith :: "'a list \<Rightarrow> 'a list \<Rightarrow> bool" where
  "startsWith s [] = True"
| "startsWith [] (p # ps) = False"
| "startsWith (c # cs) (p # ps) = (c = p \<and> startsWith cs ps)"

fun str_includes :: "'a list \<Rightarrow> 'a list \<Rightarrow> bool" where
  "str_includes [] sub = (sub = [])"
| "str_includes (c # cs) sub = (startsWith (c # cs) sub \<or> str_includes cs sub)"

text \<open>\<open>Array.prototype.join\<close> and \<open>String.prototype.split\<close> at one separator character.\<close>

fun join :: "string \<Rightarrow> string list \<Rightarrow> string" where
  "join sep [] = []"
| "join sep [x] = x"
| "join sep (x # y # ys) = x @ sep @ join sep (y # ys)"

fun split :: "char \<Rightarrow> string \<Rightarrow> string list" where
  "split sep [] = [[]]"
| "split sep (c # cs) =
     (if c = sep then [] # split sep cs
      else (case split sep cs of l # ls \<Rightarrow> (c # l) # ls | [] \<Rightarrow> [[c]]))"

definition newline :: char where
  "newline = CHR 0x0A"

definition apostrophe :: char where
  "apostrophe = CHR 0x27"

text \<open>The decimal text that a template literal gives for an integer-valued number.\<close>

fun show_nat :: "nat \<Rightarrow> string" where
  "show_nat n =
     (if n < 10 then [''0123456789'' ! n]
      else show_nat (n div 10) @ [''0123456789'' ! (n mod 10)])"

declare show_nat.simps [simp del]

definition show_int :: "int \<Rightarrow> string" where
  "show_int i = (if i < 0 then ''-'' @ show_nat (nat (- i)) else show_nat (nat i))"

text \<open>\<open>String.prototype.toUpperCase\<close> on the letters a to z, which is what the type names of
  the catalog are made of; every other character is kept.\<close>

definition upper_char :: "char \<Rightarrow> char" where
  "upper_char c =
     (case map_of (zip ''abcdefghijklmnopqrstuvwxyz'' ''ABCDEFGHIJKLMNOPQRSTUVWXYZ'') c of
        Some u \<Rightarrow> u
      | None \<Rightarrow> c)"

definition toUpperCase :: "string \<Rightarrow> string" where
  "toUpperCase s = map upper_char s"

text \<open>\<open>s.replace(/'/g, "''")\<close>: every apostrophe is replaced by two.\<close>

definition replace_apostrophes :: "string \<Rightarrow> string" where
  "replace_apostrophes s = concat (map (\<lambda>c. if c = apostrophe then [apostrophe, apostrophe] else [c]) s)"

section \<open>backup-restore.ts: \<open>getTableSchema\<close>\<close>

text \<open>A row of \<open>information_schema.columns\<close> as the query returns it. The two nullable
  fields are \<open>None\<close> for \<open>null\<close>.\<close>

record ColumnInfo =
  column_name :: string
  udt_name :: string
  data_type :: string
  character_maximum_length :: "int option"
  is_nullable :: string
  column_default :: "string option"

text \<open>The two nullable fields are tested for JavaScript truthiness: \<open>null\<close>, the empty
  string and the number 0 are falsy. So
  \<open>col.column_default && col.column_default.includes('nextval')\<close> is:\<close>

definition default_includes_nextval :: "ColumnInfo \<Rightarrow> bool" where
  "default_includes_nextval col =
     (case column_default col of
        None \<Rightarrow> False
      | Some d \<Rightarrow> d \<noteq> [] \<and> str_includes d ''nextval'')"

definition length_qualifier :: "ColumnInfo \<Rightarrow> string" where
  "length_qualifier col =
     (case character_maximum_length col of
        None \<Rightarrow> []
      | Some n \<Rightarrow> if n \<noteq> 0 then ''('' @ show_int n @ '')'' else [])"

definition column_dataType :: "ColumnInfo \<Rightarrow> string" where
  "column_dataType col =
     (if default_includes_nextval col then ''SERIAL''
      else if udt_name col = ''int4'' then ''INTEGER''
      else if udt_name col = ''int8'' then ''BIGINT''
      else if udt_name col = ''varchar'' then ''VARCHAR'' @ length_qualifier col
      else if udt_name col = ''text'' then ''TEXT''
      else if udt_name col = ''bool'' then ''BOOLEAN''
      else if udt_name col = ''timestamp'' then ''TIMESTAMP''
      else if udt_name col = ''timestamptz'' then ''TIMESTAMPTZ''
      else toUpperCase (data_type col) @ length_qualifier col)"

definition default_clause :: "ColumnInfo \<Rightarrow> string" where
  "default_clause col =
     (case column_default col of
        None \<Rightarrow> []
      | Some d \<Rightarrow> if d \<noteq> [] \<and> \<not> str_includes d ''nextval'' then '' DEFAULT '' @ d else [])"

definition not_null_clause :: "ColumnInfo \<Rightarrow> string" where
  "not_null_clause col =
     (if is_nullable col = ''NO'' \<and> column_dataType col \<noteq> ''SERIAL'' then '' NOT NULL'' else [])"

definition column_def :: "ColumnInfo \<Rightarrow> string" where
  \<open>column_def col =
     ''"'' @ column_name col @ ''" '' @ column_dataType col @ default_clause col @ not_null_clause col\<close>

definition getTableSchema :: "string \<Rightarrow> ColumnInfo list \<Rightarrow> string" where
  \<open>getTableSchema tableName cols =
     ''CREATE TABLE IF NOT EXISTS "'' @ tableName @ ''" ('' @ [newline] @ ''  '' @
     join ('','' @ [newline] @ ''  '') (map column_def cols) @ [newline] @ '');''\<close>

section \<open>backup-restore.ts: \<open>getTableData\<close>\<close>

text \<open>A value of a result row, by the branch of the serializer that it takes. The conversions
  that the platform applies are carried by the value: \<open>Number s\<close> is a number whose string
  conversion (the one \<open>Array.prototype.join\<close> applies) is \<open>s\<close>, \<open>Date s\<close> is a Date whose
  \<open>toISOString()\<close> is \<open>s\<close>, and \<open>Other s\<close> is any other value, with \<open>String(val) = s\<close> (a
  string is its own conversion).\<close>

datatype val = Null | Number string | Boolean bool | Date string | Other string

definition quoted :: "string \<Rightarrow> string" where
  "quoted s = [apostrophe] @ s @ [apostrophe]"

fun sql_literal :: "val \<Rightarrow> string" where
  "sql_literal Null = ''NULL''"
| "sql_literal (Number s) = s"
| "sql_literal (Boolean b) = (if b then ''true'' else ''false'')"
| "sql_literal (Date s) = quoted s"
| "sql_literal (Other s) = quoted (replace_apostrophes s)"

text \<open>A row is an object keyed by field name; a key that is absent reads as \<open>undefined\<close>,
  which takes the last branch with \<open>String(undefined)\<close>.\<close>

definition row_value :: "(string \<rightharpoonup> val) \<Rightarrow> string \<Rightarrow> val" where
  "row_value row name = (case row name of None \<Rightarrow> Other ''undefined'' | Some v \<Rightarrow> v)"

definition insert_statement :: "string \<Rightarrow> string list \<Rightarrow> (string \<rightharpoonup> val) \<Rightarrow> string" where
  \<open>insert_statement tableName field_names row =
     ''INSERT INTO "'' @ tableName @ ''" ('' @
     join '', '' (map (\<lambda>f. ''"'' @ f @ ''"'') field_names) @ '') VALUES ('' @
     join '', '' (map (\<lambda>f. sql_literal (row_value row f)) field_names) @ '');''\<close>

definition getTableData :: "string \<Rightarrow> string list \<Rightarrow> (string \<rightharpoonup> val) list \<Rightarrow> string" where
  "getTableData tableName field_names result_rows =
     (if result_rows = [] then []
      else join [newline] (map (insert_statement tableName field_names) result_rows))"

section \<open>backup-restore.ts: the direct path of \<open>backupDatabase\<close>\<close>

text \<open>What the queries of one run return for a table: its name, its columns, and the fields
  and rows of \<open>SELECT *\<close>.\<close>

record TableSnapshot =
  tablename :: string
  columns :: "ColumnInfo list"
  result_fields :: "string list"
  result_rows :: "(string \<rightharpoonup> val) list"

text \<open>The body of \<open>for (const tableName of tables)\<close>: the elements pushed for one table.
  \<open>primaryKeys\<close> is the object built by \<open>getPrimaryKeys\<close>.\<close>

definition table_lines :: "(string \<rightharpoonup> string list) \<Rightarrow> TableSnapshot \<Rightarrow> string list" where
  \<open>table_lines primaryKeys t =
     [''-- Table: '' @ tablename t,
      ''DROP TABLE IF EXISTS "'' @ tablename t @ ''" CASCADE;'',
      getTableSchema (tablename t) (columns t),
      []] @
     (case primaryKeys (tablename t) of
        None \<Rightarrow> []
      | Some pk \<Rightarrow>
          [''ALTER TABLE "'' @ tablename t @ ''" ADD PRIMARY KEY ('' @
             join '', '' (map (\<lambda>c. ''"'' @ c @ ''"'') pk) @ '');'',
           []]) @
     (let data = getTableData (tablename t) (result_fields t) (result_rows t)
      in if data \<noteq> [] then [data, []] else [])\<close>

definition backup_lines :: "string \<Rightarrow> (string \<rightharpoonup> string list) \<Rightarrow> TableSnapshot list \<Rightarrow> string list" where
  "backup_lines generated primaryKeys tables =
     [''-- VCKit Database Backup'',
      ''-- Generated: '' @ generated,
      ''-- Tool: vckit-db-tools'',
      [],
      ''SET client_encoding = 'UTF8';'',
      []] @
     concat (map (table_lines primaryKeys) tables)"

text \<open>\<open>BackupResult\<close>. The text of the artifact is a \<open>string\<close> whose characters are the bytes
  of the file, so \<open>stats.size\<close> is its length.\<close>

record BackupResult =
  file_path :: string
  size_bytes :: nat
  lines :: nat

definition backupDatabase ::
  "string \<Rightarrow> string \<Rightarrow> (string \<rightharpoonup> string list) \<Rightarrow> TableSnapshot list \<Rightarrow> BackupResult \<times> string" where
  "backupDatabase outputPath generated primaryKeys tables =
     (let ls = backup_lines generated primaryKeys tables;
          content = join [newline] ls
      in (\<lparr>file_path = outputPath, size_bytes = length content, lines = length ls\<rparr>, content))"

section \<open>backup-restore.ts: statement replay of \<open>restoreDatabase\<close>\<close>

text \<open>The outcome of one awaited \<open>client.query(stmt)\<close>: it resolves, or it rejects with an
  error carrying a message.\<close>

datatype query_outcome = Resolved | Rejected string

text \<open>The target database is outside the program: it is a state of any type \<open>'db\<close> together
  with the function \<open>query\<close> that gives, for a state and a statement, the outcome and the next
  state.\<close>

record counts =
  successCount :: nat
  errorCount :: nat

record 'db replay_state = counts +
  database :: 'db
  executed :: "string list"

definition replay_init :: "'db \<Rightarrow> 'db replay_state" where
  "replay_init db = \<lparr>successCount = 0, errorCount = 0, database = db, executed = []\<rparr>"

text \<open>One iteration of \<open>for (const stmt of statements)\<close>: the \<open>try\<close> counts a success, the
  \<open>catch\<close> counts an error unless the message includes one of the two benign phrases; nothing
  is rethrown.\<close>

definition replay_step ::
  "('db \<Rightarrow> string \<Rightarrow> query_outcome \<times> 'db) \<Rightarrow> 'db replay_state \<Rightarrow> string \<Rightarrow> 'db replay_state" where
  "replay_step query st stmt =
     (case query (database st) stmt of
        (Resolved, db') \<Rightarrow>
          st\<lparr>database := db', successCount := successCount st + 1,
             executed := executed st @ [stmt]\<rparr>
      | (Rejected message, db') \<Rightarrow>
          if \<not> str_includes message ''already exists'' \<and> \<not> str_includes message ''duplicate key''
          then st\<lparr>database := db', errorCount := errorCount st + 1,
                  executed := executed st @ [stmt]\<rparr>
          else st\<lparr>database := db', executed := executed st @ [stmt]\<rparr>)"

fun replay ::
  "('db \<Rightarrow> string \<Rightarrow> query_outcome \<times> 'db) \<Rightarrow> 'db replay_state \<Rightarrow> string list \<Rightarrow> 'db replay_state" where
  "replay query st [] = st"
| "replay query st (stmt # rest) = replay query (replay_step query st stmt) rest"

text \<open>\<open>RestoreResult\<close> and the \<open>return\<close> at the end of the direct (non-container) path.\<close>

record RestoreResult =
  restore_success :: bool
  statements :: "nat option"
  restore_errors :: "nat option"

definition restore_replay ::
  "('db \<Rightarrow> string \<Rightarrow> query_outcome \<times> 'db) \<Rightarrow> 'db \<Rightarrow> string list \<Rightarrow> RestoreResult \<times> 'db replay_state" where
  "restore_replay query db stmts =
     (let st = replay query (replay_init db) stmts
      in (\<lparr>restore_success = True, statements = Some (successCount st),
          restore_errors = Some (errorCount st)\<rparr>, st))"

section \<open>Buffers: hexadecimal and UTF-8 conversions\<close>

text \<open>A \<open>Buffer\<close> or \<open>Uint8Array\<close> is a list of bytes.\<close>

type_synonym byte = "8 word"

text \<open>\<open>Buffer.from(s, 'hex')\<close> decodes pairs of hexadecimal digits of either case and stops at the
  first pair that is not one; a last single character is dropped. \<open>buf.toString('hex')\<close> writes two
  lower-case digits for each byte.\<close>

definition hex_digit_value :: "char \<Rightarrow> nat option" where
  "hex_digit_value c =
     map_of [(CHR ''0'', 0), (CHR ''1'', 1), (CHR ''2'', 2), (CHR ''3'', 3), (CHR ''4'', 4),
             (CHR ''5'', 5), (CHR ''6'', 6), (CHR ''7'', 7), (CHR ''8'', 8), (CHR ''9'', 9),
             (CHR ''a'', 10), (CHR ''b'', 11), (CHR ''c'', 12), (CHR ''d'', 13), (CHR ''e'', 14),
             (CHR ''f'', 15), (CHR ''A'', 10), (CHR ''B'', 11), (CHR ''C'', 12), (CHR ''D'', 13),
             (CHR ''E'', 14), (CHR ''F'', 15)] c"

fun hex_decode :: "string \<Rightarrow> byte list" where
  "hex_decode (a # b # rest) =
     (case (hex_digit_value a, hex_digit_value b) of
        (Some h, Some l) \<Rightarrow> of_nat (16 * h + l) # hex_decode rest
      | _ \<Rightarrow> [])"
| "hex_decode _ = []"

definition hex_byte :: "byte \<Rightarrow> string" where
  "hex_byte b = [''0123456789abcdef'' ! (unat b div 16), ''0123456789abcdef'' ! (unat b mod 16)]"

definition hex_encode :: "byte list \<Rightarrow> string" where
  "hex_encode bs = concat (map hex_byte bs)"

text \<open>A JavaScript string whose encoding matters (a plaintext) is its list of UTF-16 code
  units. \<open>Buffer.from(s, 'utf8')\<close> encodes a surrogate pair as one code point of four bytes and
  a surrogate that is not part of a pair as U+FFFD; \<open>buf.toString('utf8')\<close> decodes, with U+FFFD
  for every maximal part of an ill-formed sequence.\<close>

type_synonym jsstring = "16 word list"

definition is_high_surrogate :: "16 word \<Rightarrow> bool" where
  "is_high_surrogate u = (0xD800 \<le> unat u \<and> unat u \<le> 0xDBFF)"

definition is_low_surrogate :: "16 word \<Rightarrow> bool" where
  "is_low_surrogate u = (0xDC00 \<le> unat u \<and> unat u \<le> 0xDFFF)"

definition utf8_bytes :: "nat \<Rightarrow> byte list" where
  "utf8_bytes cp =
     (if cp < 0x80 then [of_nat cp]
      else if cp < 0x800 then [of_nat (0xC0 + cp div 64), of_nat (0x80 + cp mod 64)]
      else if cp < 0x10000 then
        [of_nat (0xE0 + cp div 4096), of_nat (0x80 + cp div 64 mod 64), of_nat (0x80 + cp mod 64)]
      else
        [of_nat (0xF0 + cp div 262144), of_nat (0x80 + cp div 4096 mod 64),
         of_nat (0x80 + cp div 64 mod 64), of_nat (0x80 + cp mod 64)])"

fun utf8_encode :: "jsstring \<Rightarrow> byte list" where
  "utf8_encode [] = []"
| "utf8_encode [u] =
     (if is_high_surrogate u \<or> is_low_surrogate u then utf8_bytes 0xFFFD
      else utf8_bytes (unat u))"
| "utf8_encode (u # v # rest) =
     (if is_high_surrogate u \<and> is_low_surrogate v then
        utf8_bytes (0x10000 + (unat u - 0xD800) * 1024 + (unat v - 0xDC00)) @ utf8_encode rest
      else if is_high_surrogate u \<or> is_low_surrogate u then
        utf8_bytes 0xFFFD @ utf8_encode (v # rest)
      else utf8_bytes (unat u) @ utf8_encode (v # rest))"

definition utf16_units :: "nat \<Rightarrow> jsstring" where
  "utf16_units cp =
     (if cp < 0x10000 then [of_nat cp]
      else [of_nat (0xD800 + (cp - 0x10000) div 1024), of_nat (0xDC00 + (cp - 0x10000) mod 1024)])"

definition continuation :: "byte \<Rightarrow> bool" where
  "continuation b = (0x80 \<le> unat b \<and> unat b \<le> 0xBF)"

definition second_of_three :: "nat \<Rightarrow> byte \<Rightarrow> bool" where
  "second_of_three lead b =
     ((if lead = 0xE0 then 0xA0 else 0x80) \<le> unat b \<and> unat b \<le> (if lead = 0xED then 0x9F else 0xBF))"

definition second_of_four :: "nat \<Rightarrow> byte \<Rightarrow> bool" where
  "second_of_four lead b =
     ((if lead = 0xF0 then 0x90 else 0x80) \<le> unat b \<and> unat b \<le> (if lead = 0xF4 then 0x8F else 0xBF))"

fun utf8_decode :: "byte list \<Rightarrow> jsstring" where
  "utf8_decode [] = []"
| "utf8_decode (b # bs) =
     (let n = unat b in
      if n < 0x80 then of_nat n # utf8_decode bs
      else if 0xC2 \<le> n \<and> n \<le> 0xDF then
        (case bs of
           [] \<Rightarrow> [0xFFFD]
         | b1 # r1 \<Rightarrow>
             if \<not> continuation b1 then 0xFFFD # utf8_decode bs
             else utf16_units ((n - 0xC0) * 64 + (unat b1 - 0x80)) @ utf8_decode r1)
      else if 0xE0 \<le> n \<and> n \<le> 0xEF then
        (case bs of
           [] \<Rightarrow> [0xFFFD]
         | b1 # r1 \<Rightarrow>
             if \<not> second_of_three n b1 then 0xFFFD # utf8_decode bs
             else (case r1 of
                     [] \<Rightarrow> [0xFFFD]
                   | b2 # r2 \<Rightarrow>
                       if \<not> continuation b2 then 0xFFFD # utf8_decode r1
                       else utf16_units ((n - 0xE0) * 4096 + (unat b1 - 0x80) * 64 + (unat b2 - 0x80))
                            @ utf8_decode r2))
      else if 0xF0 \<le> n \<and> n \<le> 0xF4 then
        (case bs of
           [] \<Rightarrow> [0xFFFD]
         | b1 # r1 \<Rightarrow>
             if \<not> second_of_four n b1 then 0xFFFD # utf8_decode bs
             else (case r1 of
                     [] \<Rightarrow> [0xFFFD]
                   | b2 # r2 \<Rightarrow>
                       if \<not> continuation b2 then 0xFFFD # utf8_decode r1
                       else (case r2 of
                               [] \<Rightarrow> [0xFFFD]
                             | b3 # r3 \<Rightarrow>
                                 if \<not> continuation b3 then 0xFFFD # utf8_decode r2
                                 else utf16_units ((n - 0xF0) * 262144 + (unat b1 - 0x80) * 4096 +
                                                   (unat b2 - 0x80) * 64 + (unat b3 - 0x80))
                                      @ utf8_decode r3)))
      else 0xFFFD # utf8_decode bs)"

text \<open>A string is well formed when every surrogate is part of a pair.\<close>

fun well_formed :: "jsstring \<Rightarrow> bool" where
  "well_formed [] = True"
| "well_formed [u] = (\<not> is_high_surrogate u \<and> \<not> is_low_surrogate u)"
| "well_formed (u # v # rest) =
     (if is_high_surrogate u then is_low_surrogate v \<and> well_formed rest
      else \<not> is_low_surrogate u \<and> well_formed (v # rest))"

section \<open>tweetnacl: \<open>nacl.secretbox\<close> and \<open>nacl.secretbox.open\<close>\<close>

text \<open>The library is not part of the repository. Its secret box is XSalsa20 with a Poly1305
  authenticator, as NaCl specifies them: the first 32 bytes of the stream are the one-time
  authenticator key, the rest is added to the message, and the box is the 16-byte authenticator
  followed by the ciphertext.\<close>

definition rotl32 :: "32 word \<Rightarrow> nat \<Rightarrow> 32 word" where
  "rotl32 u c = push_bit c u OR drop_bit (32 - c) u"

definition quarterround :: "nat \<Rightarrow> nat \<Rightarrow> nat \<Rightarrow> nat \<Rightarrow> 32 word list \<Rightarrow> 32 word list" where
  "quarterround a b c d x =
     (let xb = x ! b XOR rotl32 (x ! a + x ! d) 7;
          xc = x ! c XOR rotl32 (xb + x ! a) 9;
          xd = x ! d XOR rotl32 (xc + xb) 13;
          xa = x ! a XOR rotl32 (xd + xc) 18
      in x[a := xa, b := xb, c := xc, d := xd])"

definition doubleround :: "32 word list \<Rightarrow> 32 word list" where
  "doubleround x =
     (quarterround 15 12 13 14 \<circ> quarterround 10 11 8 9 \<circ> quarterround 5 6 7 4 \<circ>
      quarterround 0 1 2 3 \<circ>
      quarterround 15 3 7 11 \<circ> quarterround 10 14 2 6 \<circ> quarterround 5 9 13 1 \<circ>
      quarterround 0 4 8 12) x"

definition ld32 :: "byte list \<Rightarrow> 32 word" where
  "ld32 bs = foldr (\<lambda>b w. ucast b OR push_bit 8 w) (take 4 bs) 0"

definition st32 :: "32 word \<Rightarrow> byte list" where
  "st32 w = [ucast w, ucast (drop_bit 8 w), ucast (drop_bit 16 w), ucast (drop_bit 24 w)]"

fun words_le :: "nat \<Rightarrow> byte list \<Rightarrow> 32 word list" where
  "words_le 0 bs = []"
| "words_le (Suc n) bs = ld32 bs # words_le n (drop 4 bs)"

definition sigma :: "byte list" where
  "sigma = map (of_nat \<circ> of_char) ''expand 32-byte k''"

definition salsa_input :: "byte list \<Rightarrow> byte list \<Rightarrow> 32 word list" where
  "salsa_input p k =
     (let c = words_le 4 sigma; kw = words_le 8 k; pw = words_le 4 p
      in [c ! 0] @ take 4 kw @ [c ! 1] @ pw @ [c ! 2] @ drop 4 kw @ [c ! 3])"

definition rounds20 :: "32 word list \<Rightarrow> 32 word list" where
  "rounds20 x = (doubleround ^^ 10) x"

definition core_salsa20 :: "byte list \<Rightarrow> byte list \<Rightarrow> byte list" where
  "core_salsa20 p k =
     (let j = salsa_input p k in concat (map st32 (map2 (+) (rounds20 j) j)))"

definition core_hsalsa20 :: "byte list \<Rightarrow> byte list \<Rightarrow> byte list" where
  "core_hsalsa20 p k =
     (let x = rounds20 (salsa_input p k)
      in concat (map st32 [x ! 0, x ! 5, x ! 10, x ! 15, x ! 6, x ! 7, x ! 8, x ! 9]))"

text \<open>Little-endian numbers of Poly1305 and of the block counter.\<close>

definition le_bytes :: "nat \<Rightarrow> int \<Rightarrow> byte list" where
  "le_bytes len n = map (\<lambda>i. of_int (n div 256 ^ i)) [0..<len]"

definition le_int :: "byte list \<Rightarrow> int" where
  "le_int bs = foldr (\<lambda>b n. uint b + 256 * n) bs 0"

definition crypto_stream_salsa20 :: "nat \<Rightarrow> byte list \<Rightarrow> byte list \<Rightarrow> byte list" where
  "crypto_stream_salsa20 len n k =
     take len (concat (map (\<lambda>i. core_salsa20 (take 8 n @ le_bytes 8 (int i)) k) [0..<(len + 63) div 64]))"

definition crypto_stream :: "nat \<Rightarrow> byte list \<Rightarrow> byte list \<Rightarrow> byte list" where
  "crypto_stream len n k = crypto_stream_salsa20 len (drop 16 n) (core_hsalsa20 (take 16 n) k)"

definition xor_bytes :: "byte list \<Rightarrow> byte list \<Rightarrow> byte list" where
  "xor_bytes m s = map2 (XOR) m s"

definition crypto_onetimeauth :: "byte list \<Rightarrow> byte list \<Rightarrow> byte list" where
  "crypto_onetimeauth m k =
     (let r = le_int (take 16 k) AND 0x0ffffffc0ffffffc0ffffffc0fffffff;
          s = le_int (take 16 (drop 16 k));
          blocks = map (\<lambda>i. take 16 (drop (16 * i) m)) [0..<(length m + 15) div 16];
          h = fold (\<lambda>blk h. ((h + le_int blk + 2 ^ (8 * length blk)) * r) mod (2 ^ 130 - 5)) blocks 0
      in le_bytes 16 ((h + s) mod 2 ^ 128))"

definition crypto_secretbox :: "byte list \<Rightarrow> byte list \<Rightarrow> byte list \<Rightarrow> byte list" where
  "crypto_secretbox m n k =
     (let s = crypto_stream (32 + length m) n k;
          c = xor_bytes m (drop 32 s)
      in crypto_onetimeauth c (take 32 s) @ c)"

definition crypto_secretbox_open :: "byte list \<Rightarrow> byte list \<Rightarrow> byte list \<Rightarrow> byte list option" where
  "crypto_secretbox_open box n k =
     (let c = drop 16 box;
          s = crypto_stream (32 + length c) n k
      in if crypto_onetimeauth c (take 32 s) \<noteq> take 16 box then None
         else Some (xor_bytes c (drop 32 s)))"

text \<open>The exported functions check the sizes of key and nonce first (\<open>checkLengths\<close> throws);
  \<open>open\<close> returns \<open>null\<close>, here \<open>None\<close>, for a box shorter than its authenticator or one that
  does not verify.\<close>

datatype error =
    BadKeySize
  | BadNonceSize
  | DecryptionFailed
  | VerificationFailed
  | OldKeyFormat
  | NewKeyFormat
  | DatabaseError string
  | RotationFailed nat

definition nacl_secretbox :: "byte list \<Rightarrow> byte list \<Rightarrow> byte list \<Rightarrow> error + byte list" where
  "nacl_secretbox msg nonce key =
     (if length key \<noteq> 32 then Inl BadKeySize
      else if length nonce \<noteq> 24 then Inl BadNonceSize
      else Inr (crypto_secretbox msg nonce key))"

definition nacl_secretbox_open :: "byte list \<Rightarrow> byte list \<Rightarrow> byte list \<Rightarrow> error + byte list option" where
  "nacl_secretbox_open box nonce key =
     (if length key \<noteq> 32 then Inl BadKeySize
      else if length nonce \<noteq> 24 then Inl BadNonceSize
      else if length box < 16 then Inr None
      else Inr (crypto_secretbox_open box nonce key))"

section \<open>rotate-key.ts: \<open>SecretBox\<close>\<close>

text \<open>The message of each error that the rotation can meet.\<close>

fun error_message :: "error \<Rightarrow> string" where
  "error_message BadKeySize = ''bad key size''"
| "error_message BadNonceSize = ''bad nonce size''"
| "error_message DecryptionFailed = ''Decryption failed - wrong key or corrupted data''"
| "error_message VerificationFailed = ''Verification failed - encryption round-trip mismatch''"
| "error_message OldKeyFormat = ''OLD_KEY must be 64 hex characters''"
| "error_message NewKeyFormat = ''NEW_KEY must be 64 hex characters''"
| "error_message (DatabaseError m) = m"
| "error_message (RotationFailed n) = show_nat n @ '' key(s) failed to rotate''"

definition NONCE_BYTES :: nat where
  "NONCE_BYTES = 24"

record SecretBox =
  secretKey :: "byte list"

definition new_SecretBox :: "string \<Rightarrow> SecretBox" where
  "new_SecretBox secretKeyHex = \<lparr>secretKey = hex_decode secretKeyHex\<rparr>"

text \<open>\<open>encrypt\<close>: the nonce is what \<open>nacl.randomBytes(NONCE_BYTES)\<close> returned for this call.\<close>

definition encrypt :: "SecretBox \<Rightarrow> byte list \<Rightarrow> jsstring \<Rightarrow> error + string" where
  "encrypt box nonce msg =
     (case nacl_secretbox (utf8_encode msg) nonce (secretKey box) of
        Inl e \<Rightarrow> Inl e
      | Inr ciphertext \<Rightarrow> Inr (hex_encode (nonce @ ciphertext)))"

definition decrypt :: "SecretBox \<Rightarrow> string \<Rightarrow> error + jsstring" where
  "decrypt box encryptedHex =
     (let combined = hex_decode encryptedHex;
          nonce = take NONCE_BYTES combined;
          ciphertext = drop NONCE_BYTES combined
      in case nacl_secretbox_open ciphertext nonce (secretKey box) of
           Inl e \<Rightarrow> Inl e
         | Inr None \<Rightarrow> Inl DecryptionFailed
         | Inr (Some decrypted) \<Rightarrow> Inr (utf8_decode decrypted))"

section \<open>rotate-key.ts: \<open>rotateEncryptionKey\<close>\<close>

text \<open>\<open>/^[a-fA-F0-9]{64}$/.test(key)\<close>\<close>

definition hex_char :: "char \<Rightarrow> bool" where
  "hex_char c = (c \<in> set ''0123456789abcdefABCDEF'')"

definition key_format_ok :: "string \<Rightarrow> bool" where
  "key_format_ok key = (length key = 64 \<and> list_all hex_char key)"

text \<open>A row of the table \<open>private-key\<close>.\<close>

record PrivateKeyRow =
  row_alias :: string
  key_type :: string
  privateKeyHex :: string

text \<open>What lies outside the program during one run: the table, whether \<open>client.connect()\<close> and
  the SELECT reject (and with which message), whether the UPDATE for the row at a position of
  the result rejects, and the bytes that \<open>nacl.randomBytes\<close> returns for the row at a position.
  A rejected UPDATE changes nothing. \<open>client.end()\<close> resolves.\<close>

record world =
  private_key_table :: "PrivateKeyRow list"
  connect_rejects :: "string option"
  select_rejects :: "string option"
  update_rejects :: "nat \<Rightarrow> string option"
  randomBytes :: "nat \<Rightarrow> byte list"

text \<open>What a run does to the outside, in order.\<close>

datatype event =
    Connect
  | Select
  | Decrypt string
  | Encrypt
  | Update string string
  | End

text \<open>\<open>UPDATE "private-key" SET "privateKeyHex" = $1 WHERE alias = $2\<close>\<close>

definition update_table :: "PrivateKeyRow list \<Rightarrow> string \<Rightarrow> string \<Rightarrow> PrivateKeyRow list" where
  "update_table tbl v a = map (\<lambda>r. if row_alias r = a then r\<lparr>privateKeyHex := v\<rparr> else r) tbl"

text \<open>The state of the loop: the two counters, the list \<open>errors\<close>, the table and the events so
  far.\<close>

record rotate_state = counts +
  errors_list :: "(string \<times> string) list"
  table_now :: "PrivateKeyRow list"
  events :: "event list"

definition shortAlias :: "string \<Rightarrow> string" where
  "shortAlias a = take 20 a @ (if length a > 20 then ''...'' else [])"

text \<open>The \<open>try\<close> block of one row up to the UPDATE: decrypt under the old key, encrypt under the
  new key, decrypt again and compare. The result is the error thrown or the new ciphertext,
  with the cryptographic operations that were attempted.\<close>

definition reencrypt :: "SecretBox \<Rightarrow> SecretBox \<Rightarrow> byte list \<Rightarrow> string \<Rightarrow> (error + string) \<times> event list" where
  "reencrypt oldBox newBox nonce hex =
     (case decrypt oldBox hex of
        Inl e \<Rightarrow> (Inl e, [Decrypt hex])
      | Inr decrypted \<Rightarrow>
          (case encrypt newBox nonce decrypted of
             Inl e \<Rightarrow> (Inl e, [Decrypt hex, Encrypt])
           | Inr reencrypted \<Rightarrow>
               (case decrypt newBox reencrypted of
                  Inl e \<Rightarrow> (Inl e, [Decrypt hex, Encrypt, Decrypt reencrypted])
                | Inr verify \<Rightarrow>
                    if verify \<noteq> decrypted
                    then (Inl VerificationFailed, [Decrypt hex, Encrypt, Decrypt reencrypted])
                    else (Inr reencrypted, [Decrypt hex, Encrypt, Decrypt reencrypted]))))"

text \<open>The outcome of the whole \<open>try\<close> block for the row at position \<open>i\<close>: the error caught, or the
  ciphertext that the UPDATE stored.\<close>

definition row_outcome :: "SecretBox \<Rightarrow> SecretBox \<Rightarrow> world \<Rightarrow> nat \<Rightarrow> PrivateKeyRow \<Rightarrow> error + string" where
  "row_outcome oldBox newBox w i row =
     (case fst (reencrypt oldBox newBox (randomBytes w i) (privateKeyHex row)) of
        Inl e \<Rightarrow> Inl e
      | Inr reencrypted \<Rightarrow>
          (case update_rejects w i of
             Some m \<Rightarrow> Inl (DatabaseError m)
           | None \<Rightarrow> Inr reencrypted))"

definition rotate_step :: "SecretBox \<Rightarrow> SecretBox \<Rightarrow> world \<Rightarrow> rotate_state \<Rightarrow> nat \<Rightarrow> PrivateKeyRow \<Rightarrow> rotate_state" where
  "rotate_step oldBox newBox w st i row =
     (case reencrypt oldBox newBox (randomBytes w i) (privateKeyHex row) of
        (Inl e, evs) \<Rightarrow>
          st\<lparr>errorCount := errorCount st + 1,
             errors_list := errors_list st @ [(shortAlias (row_alias row), error_message e)],
             events := events st @ evs\<rparr>
      | (Inr reencrypted, evs) \<Rightarrow>
          (case update_rejects w i of
             Some m \<Rightarrow>
               st\<lparr>errorCount := errorCount st + 1,
                  errors_list := errors_list st @ [(shortAlias (row_alias row), m)],
                  events := events st @ evs @ [Update reencrypted (row_alias row)]\<rparr>
           | None \<Rightarrow>
               st\<lparr>successCount := successCount st + 1,
                  table_now := update_table (table_now st) reencrypted (row_alias row),
                  events := events st @ evs @ [Update reencrypted (row_alias row)]\<rparr>))"

fun rotate_loop :: "SecretBox \<Rightarrow> SecretBox \<Rightarrow> world \<Rightarrow> rotate_state \<Rightarrow> nat \<Rightarrow> PrivateKeyRow list \<Rightarrow> rotate_state" where
  "rotate_loop oldBox newBox w st i [] = st"
| "rotate_loop oldBox newBox w st i (row # rest) =
     rotate_loop oldBox newBox w (rotate_step oldBox newBox w st i row) (Suc i) rest"

record RotateKeyResult =
  success :: nat
  errors :: nat

definition rotate_init :: "world \<Rightarrow> rotate_state" where
  "rotate_init w =
     \<lparr>successCount = 0, errorCount = 0, errors_list = [], table_now = private_key_table w,
      events = []\<rparr>"

text \<open>The function returns what the caller observes, a thrown error or the result, together
  with the final state. The \<open>finally\<close> block runs \<open>client.end()\<close> on every path that entered the
  \<open>try\<close>.\<close>

definition rotateEncryptionKey :: "string \<Rightarrow> string \<Rightarrow> world \<Rightarrow> (error + RotateKeyResult) \<times> rotate_state" where
  "rotateEncryptionKey oldKey newKey w =
     (let st0 = rotate_init w in
      if \<not> key_format_ok oldKey then (Inl OldKeyFormat, st0)
      else if \<not> key_format_ok newKey then (Inl NewKeyFormat, st0)
      else
        let oldBox = new_SecretBox oldKey; newBox = new_SecretBox newKey in
        case connect_rejects w of
          Some m \<Rightarrow> (Inl (DatabaseError m), st0\<lparr>events := [Connect, End]\<rparr>)
        | None \<Rightarrow>
            (case select_rejects w of
               Some m \<Rightarrow> (Inl (DatabaseError m), st0\<lparr>events := [Connect, Select, End]\<rparr>)
             | None \<Rightarrow>
                 if private_key_table w = [] then
                   (Inr \<lparr>success = 0, errors = 0\<rparr>, st0\<lparr>events := [Connect, Select, End]\<rparr>)
                 else
                   let st = rotate_loop oldBox newBox w (st0\<lparr>events := [Connect, Select]\<rparr>) 0
                              (private_key_table w);
                       st' = st\<lparr>events := events st @ [End]\<rparr>
                   in if errorCount st > 0 then (Inl (RotationFailed (errorCount st)), st')
                      else (Inr \<lparr>success = successCount st, errors = errorCount st\<rparr>, st')))"

section \<open>Notions for stating the properties\<close>

text \<open>For stating what a run counts: the outcomes that the statements of a run meet, in
  order, and the failures that count (those whose message includes neither benign phrase).\<close>

fun outcomes :: "('db \<Rightarrow> string \<Rightarrow> query_outcome \<times> 'db) \<Rightarrow> 'db \<Rightarrow> string list \<Rightarrow> query_outcome list" where
  "outcomes query db [] = []"
| "outcomes query db (stmt # rest) = fst (query db stmt) # outcomes query (snd (query db stmt)) rest"

definition benign :: "string \<Rightarrow> bool" where
  "benign message = (str_includes message ''already exists'' \<or> str_includes message ''duplicate key'')"

fun counted_failure :: "query_outcome \<Rightarrow> bool" where
  "counted_failure Resolved = False"
| "counted_failure (Rejected message) = (\<not> benign message)"

text \<open>The number of newline characters of a text.\<close>

definition newlines :: "string \<Rightarrow> nat" where
  "newlines s = length (filter (\<lambda>c. c = newline) s)"

text \<open>A code unit that is no surrogate.\<close>

definition plain_unit :: "16 word \<Rightarrow> bool" where
  "plain_unit u = (\<not> is_high_surrogate u \<and> \<not> is_low_surrogate u)"

text \<open>For stating what a rotation leaves behind: the ciphertext that the rows of a run, from
  position \<open>i\<close> on, store for an alias (none when the row of that alias fails), and the
  failures they record, in order.\<close>

fun stored_for :: "SecretBox \<Rightarrow> SecretBox \<Rightarrow> world \<Rightarrow> nat \<Rightarrow> PrivateKeyRow list \<Rightarrow> string \<Rightarrow> string option" where
  "stored_for oldBox newBox w i [] a = None"
| "stored_for oldBox newBox w i (row # rest) a =
     (if row_alias row = a
      then (case row_outcome oldBox newBox w i row of Inl e \<Rightarrow> None | Inr v \<Rightarrow> Some v)
      else stored_for oldBox newBox w (Suc i) rest a)"

fun failures :: "SecretBox \<Rightarrow> SecretBox \<Rightarrow> world \<Rightarrow> nat \<Rightarrow> PrivateKeyRow list \<Rightarrow> (string \<times> string) list" where
  "failures oldBox newBox w i [] = []"
| "failures oldBox newBox w i (row # rest) =
     (case row_outcome oldBox newBox w i row of
        Inl e \<Rightarrow> (shortAlias (row_alias row), error_message e) # failures oldBox newBox w (Suc i) rest
      | Inr v \<Rightarrow> failures oldBox newBox w (Suc i) rest)"

text \<open>What \<open>encrypt\<close> returns for a key, a nonce and a message when the sizes are right: the
  hexadecimal text of the nonce followed by the box.\<close>

definition sealed :: "string \<Rightarrow> byte list \<Rightarrow> jsstring \<Rightarrow> string" where
  "sealed key nonce msg = hex_encode (nonce @ crypto_secretbox (utf8_encode msg) nonce (hex_decode key))"


text \<open>The outcome of the row at position \<open>j\<close> of the table in a run with the two keys.\<close>

definition outcome_at :: "string \<Rightarrow> string \<Rightarrow> world \<Rightarrow> nat \<Rightarrow> error + string" where
  "outcome_at oldKey newKey w j =
     row_outcome (new_SecretBox oldKey) (new_SecretBox newKey) w j (private_key_table w ! j)"

section \<open>Tables and inputs for the examples\<close>

text \<open>Keys: the key of the test suite, the same key in upper case, and another key. A nonce,
  a well-formed text with a surrogate pair, and a text that is one high surrogate.\<close>

definition test_key :: string where
  "test_key = ''29739248cad1bd1a0fc4d9b75cd4d2990de535baf5caadfdf8d8f86664aa830c''"

definition upper_key :: string where
  "upper_key = ''29739248CAD1BD1A0FC4D9B75CD4D2990DE535BAF5CAADFDF8D8F86664AA830C''"

definition new_key :: string where
  "new_key = ''000102030405060708090a0b0c0d0e0f101112131415161718191a1b1c1d1e1f''"

definition zero_nonce :: "byte list" where
  "zero_nonce = replicate 24 0"

definition hello :: jsstring where
  "hello = [0x48, 0x65, 0x6C, 0x6C, 0x6F, 0x20, 0xD83D, 0xDE00]"


text \<open>Stored ciphertexts and tables: 24 zero bytes with no box behind them, rows A and B
  sealed under the key of the test suite, row R corrupt; a database that accepts everything and
  whose random bytes are the zero nonce; the same database with an empty table, and with one
  corrupt row under a long alias.\<close>

definition corrupt_hex :: string where
  "corrupt_hex = ''000000000000000000000000000000000000000000000000''"

definition row_A :: PrivateKeyRow where
  "row_A = \<lparr>row_alias = ''key-A'', key_type = ''Ed25519'',
            privateKeyHex = sealed test_key zero_nonce hello\<rparr>"

definition row_R :: PrivateKeyRow where
  "row_R = \<lparr>row_alias = ''key-R'', key_type = ''Ed25519'', privateKeyHex = corrupt_hex\<rparr>"

definition row_B :: PrivateKeyRow where
  "row_B = \<lparr>row_alias = ''key-B'', key_type = ''Secp256k1'',
            privateKeyHex = sealed test_key zero_nonce [0x42]\<rparr>"

definition sample_world :: world where
  "sample_world =
     \<lparr>private_key_table = [row_A, row_R, row_B],
      connect_rejects = None, select_rejects = None,
      update_rejects = (\<lambda>i. None), randomBytes = (\<lambda>i. zero_nonce)\<rparr>"

definition empty_world :: world where
  "empty_world = sample_world\<lparr>private_key_table := []\<rparr>"






text \<open>A table with one column and no rows.\<close>

definition one_column_table :: TableSnapshot where
  "one_column_table =
     \<lparr>tablename = ''t'',
      columns = [\<lparr>column_name = ''id'', udt_name = ''int4'', data_type = ''integer'',
                  character_maximum_length = None, is_nullable = ''NO'', column_default = None\<rparr>],
      result_fields = [''id''], result_rows = []\<rparr>"

text \<open>A target database for examples: one statement meets an existing table, one is
  malformed, any other succeeds.\<close>

definition sample_query :: "unit \<Rightarrow> string \<Rightarrow> query_outcome \<times> unit" where
  \<open>sample_query db stmt =
     (if stmt = ''CREATE TABLE t (id INTEGER);'' then (Rejected ''relation "t" already exists'', db)
      else if stmt = ''BAD;'' then (Rejected ''syntax error at or near "BAD"'', db)
      else (Resolved, db))\<close>

section \<open>Properties\<close>

lemma startsWith_iff: "startsWith s p \<longleftrightarrow> (\<exists>t. s = p @ t)"
  by (induction s p rule: startsWith.induct) auto

lemma includes_iff: "str_includes s sub \<longleftrightarrow> (\<exists>a b. s = a @ sub @ b)"
proof (induction s)
  case Nil
  then show ?case by auto
next
  case (Cons c cs)
  show ?case
  proof
    assume "str_includes (c # cs) sub"
    then consider "startsWith (c # cs) sub" | "str_includes cs sub" by auto
    then show "\<exists>a b. c # cs = a @ sub @ b"
    proof cases
      case 1
      then obtain t where "c # cs = sub @ t" by (auto simp: startsWith_iff)
      then have "c # cs = [] @ sub @ t" by simp
      then show ?thesis by blast
    next
      case 2
      then obtain a b where "cs = a @ sub @ b" using Cons.IH by auto
      then have "c # cs = (c # a) @ sub @ b" by simp
      then show ?thesis by blast
    qed
  next
    assume "\<exists>a b. c # cs = a @ sub @ b"
    then obtain a b where ab: "c # cs = a @ sub @ b" by blast
    show "str_includes (c # cs) sub"
    proof (cases a)
      case Nil
      with ab have "startsWith (c # cs) sub" by (auto simp: startsWith_iff)
      then show ?thesis by simp
    next
      case (Cons a0 a')
      with ab have "cs = a' @ sub @ b" by simp
      then have "str_includes cs sub" using Cons.IH by blast
      then show ?thesis by simp
    qed
  qed
qed

lemma replay_step_fields:
  "database (replay_step query st stmt) = snd (query (database st) stmt)"
  "executed (replay_step query st stmt) = executed st @ [stmt]"
  "successCount (replay_step query st stmt) =
     successCount st + (if fst (query (database st) stmt) = Resolved then 1 else 0)"
  "errorCount (replay_step query st stmt) =
     errorCount st + (if counted_failure (fst (query (database st) stmt)) then 1 else 0)"
  by (auto simp: replay_step_def benign_def split: prod.splits query_outcome.splits)

lemma replay_from:
  "executed (replay query st stmts) = executed st @ stmts \<and>
   successCount (replay query st stmts) =
     successCount st + length (filter (\<lambda>r. r = Resolved) (outcomes query (database st) stmts)) \<and>
   errorCount (replay query st stmts) =
     errorCount st + length (filter counted_failure (outcomes query (database st) stmts))"
  by (induction stmts arbitrary: st) (simp_all add: replay_step_fields)

subsection \<open>Statement replay\<close>

text \<open>C6. During restore every statement is executed, in the order of the list and whatever
  the outcomes of the earlier ones; a rejected statement whose message includes
  "already exists" or "duplicate key" is not counted, every other rejected statement adds one
  to the error count, and every resolved statement adds one to the success count.\<close>

theorem restore_replay_policy:
  "executed (replay query (replay_init db) stmts) = stmts \<and>
   length (outcomes query db stmts) = length stmts \<and>
   successCount (replay query (replay_init db) stmts) =
     length (filter (\<lambda>r. r = Resolved) (outcomes query db stmts)) \<and>
   errorCount (replay query (replay_init db) stmts) =
     length (filter (\<lambda>r. case r of Resolved \<Rightarrow> False
                        | Rejected message \<Rightarrow> \<not> str_includes message ''already exists'' \<and>
                                              \<not> str_includes message ''duplicate key'')
               (outcomes query db stmts))"
proof -
  have cf: "counted_failure = (\<lambda>r. case r of Resolved \<Rightarrow> False
                        | Rejected message \<Rightarrow> \<not> str_includes message ''already exists'' \<and>
                                              \<not> str_includes message ''duplicate key'')"
    by (auto simp: fun_eq_iff benign_def split: query_outcome.splits)
  have len: "length (outcomes query db stmts) = length stmts"
    by (induction stmts arbitrary: db) simp_all
  show ?thesis
    using replay_from [of query "replay_init db" stmts] len
    by (simp add: replay_init_def cf)
qed

text \<open>C6 on a run of three statements: a benign conflict, a counted failure, a success.\<close>

theorem restore_replay_policy_witness:
  \<open>executed (replay sample_query (replay_init ())
      [''CREATE TABLE t (id INTEGER);'', ''BAD;'', ''INSERT INTO t VALUES (1);'']) =
      [''CREATE TABLE t (id INTEGER);'', ''BAD;'', ''INSERT INTO t VALUES (1);''] \<and>
   outcomes sample_query () [''CREATE TABLE t (id INTEGER);'', ''BAD;'', ''INSERT INTO t VALUES (1);''] =
      [Rejected ''relation "t" already exists'', Rejected ''syntax error at or near "BAD"'', Resolved] \<and>
   successCount (replay sample_query (replay_init ())
      [''CREATE TABLE t (id INTEGER);'', ''BAD;'', ''INSERT INTO t VALUES (1);'']) = 1 \<and>
   errorCount (replay sample_query (replay_init ())
      [''CREATE TABLE t (id INTEGER);'', ''BAD;'', ''INSERT INTO t VALUES (1);'']) = 1\<close>
  using restore_replay_policy [of sample_query "()"
      "[''CREATE TABLE t (id INTEGER);'', ''BAD;'', ''INSERT INTO t VALUES (1);'']"]
  by (simp add: sample_query_def)

subsection \<open>Row serialization\<close>





subsection \<open>Column definitions\<close>

lemma length_qualifier_cases:
  "character_maximum_length col = None \<Longrightarrow> length_qualifier col = []"
  "character_maximum_length col = Some 0 \<Longrightarrow> length_qualifier col = []"
  "character_maximum_length col = Some n \<Longrightarrow> n \<noteq> 0 \<Longrightarrow>
     length_qualifier col = ''('' @ show_int n @ '')''"
  by (simp_all add: length_qualifier_def)





subsection \<open>The line count of a backup\<close>

lemma split_not_Nil: "split sep s \<noteq> []"
  by (induction s) (auto split: list.splits)

lemma length_split: "length (split newline s) = Suc (newlines s)"
  unfolding newlines_def using split_not_Nil [of newline]
  by (induction s) (auto split: list.splits)

lemma newlines_append [simp]: "newlines (a @ b) = newlines a + newlines b"
  by (simp add: newlines_def)

lemma newlines_Cons [simp]:
  "newlines (c # s) = (if c = newline then Suc (newlines s) else newlines s)"
  by (simp add: newlines_def)

lemma newlines_newline [simp]: "newlines [newline] = 1"
  by (simp add: newlines_def)

lemma newlines_join:
  "ls \<noteq> [] \<Longrightarrow> Suc (newlines (join [newline] ls)) = length ls + sum_list (map newlines ls)"
proof (induction ls)
  case Nil
  then show ?case by simp
next
  case (Cons x xs)
  show ?case
  proof (cases xs)
    case Nil
    then show ?thesis by simp
  next
    case (Cons y ys)
    with Cons.IH have "Suc (newlines (join [newline] xs)) = length xs + sum_list (map newlines xs)"
      by simp
    then show ?thesis using Cons by simp
  qed
qed

lemma text_lines_join:
  "ls \<noteq> [] \<Longrightarrow> length (split newline (join [newline] ls)) = length ls + sum_list (map newlines ls)"
  by (simp add: length_split newlines_join)

lemma newlines_getTableSchema: "2 \<le> newlines (getTableSchema tableName cols)"
proof -
  define a where \<open>a = ''CREATE TABLE IF NOT EXISTS "'' @ tableName @ ''" (''\<close>
  define b where "b = ''  '' @ join ('','' @ [newline] @ ''  '') (map column_def cols)"
  have "getTableSchema tableName cols = a @ [newline] @ b @ [newline] @ '');''"
    by (simp add: getTableSchema_def a_def b_def)
  then show ?thesis by (simp only: newlines_append newlines_newline)
qed

lemma newlines_table_lines: "2 \<le> sum_list (map newlines (table_lines primaryKeys t))"
  using newlines_getTableSchema [of "tablename t" "columns t"]
  by (simp add: table_lines_def)

text \<open>Whenever the database has a table, the number that \<open>backupDatabase\<close> returns is at least
  two less than the number of lines of the artifact.\<close>

lemma backup_lines_undercount:
  assumes "tables \<noteq> []"
  shows "lines (fst (backupDatabase outputPath generated primaryKeys tables)) + 2 \<le>
         length (split newline (snd (backupDatabase outputPath generated primaryKeys tables)))"
proof -
  obtain t ts where t: "tables = t # ts" using assms by (cases tables) auto
  define ls where "ls = backup_lines generated primaryKeys tables"
  have ne: "ls \<noteq> []" by (simp add: ls_def backup_lines_def)
  have "2 \<le> sum_list (map newlines ls)"
    using newlines_table_lines [of primaryKeys t]
    by (simp add: ls_def backup_lines_def t)
  then show ?thesis
    using text_lines_join [OF ne] by (simp add: backupDatabase_def Let_def ls_def [symmetric])
qed

text \<open>C9 at a database of one table with one column: \<open>backupDatabase\<close> returns 10 as the number
  of lines, the number of elements pushed, and the artifact it wrote has 12 lines, because the
  CREATE TABLE element spans three.\<close>

theorem backup_line_count_mismatch:
  "lines (fst (backupDatabase ''backup.sql'' ''2026-02-04T00:00:00.000Z'' Map.empty [one_column_table])) = 10 \<and>
   length (split newline (snd (backupDatabase ''backup.sql'' ''2026-02-04T00:00:00.000Z'' Map.empty [one_column_table]))) = 12"
  by (simp add: backupDatabase_def backup_lines_def table_lines_def one_column_table_def
      getTableSchema_def getTableData_def column_def_def column_dataType_def default_clause_def
      not_null_clause_def default_includes_nextval_def newline_def)

subsection \<open>UTF-8: decoding what was encoded\<close>

lemma byte_of_nat: "n < 256 \<Longrightarrow> unat (of_nat n :: byte) = n"
  by (simp add: unat_of_nat)

lemma unit_of_nat: "n < 65536 \<Longrightarrow> unat (of_nat n :: 16 word) = n"
  by (simp add: unat_of_nat)

lemma decode_one:
  "unat b < 0x80 \<Longrightarrow> utf8_decode (b # r) = of_nat (unat b) # utf8_decode r"
  by simp

lemma decode_two:
  "0xC2 \<le> unat b \<Longrightarrow> unat b \<le> 0xDF \<Longrightarrow> continuation b1 \<Longrightarrow>
   utf8_decode (b # b1 # r) = utf16_units ((unat b - 0xC0) * 64 + (unat b1 - 0x80)) @ utf8_decode r"
  by (simp add: Let_def)

lemma decode_three:
  "0xE0 \<le> unat b \<Longrightarrow> unat b \<le> 0xEF \<Longrightarrow> second_of_three (unat b) b1 \<Longrightarrow> continuation b2 \<Longrightarrow>
   utf8_decode (b # b1 # b2 # r) =
     utf16_units ((unat b - 0xE0) * 4096 + (unat b1 - 0x80) * 64 + (unat b2 - 0x80)) @ utf8_decode r"
  by (simp add: Let_def)

lemma decode_four:
  "0xF0 \<le> unat b \<Longrightarrow> unat b \<le> 0xF4 \<Longrightarrow> second_of_four (unat b) b1 \<Longrightarrow> continuation b2 \<Longrightarrow>
   continuation b3 \<Longrightarrow>
   utf8_decode (b # b1 # b2 # b3 # r) =
     utf16_units ((unat b - 0xF0) * 262144 + (unat b1 - 0x80) * 4096 + (unat b2 - 0x80) * 64 +
                  (unat b3 - 0x80)) @ utf8_decode r"
  by (simp add: Let_def)

declare utf8_decode.simps [simp del]

lemma decode_bytes1:
  assumes "cp < 0x80"
  shows "utf8_decode (utf8_bytes cp @ r) = utf16_units cp @ utf8_decode r"
proof -
  define b :: byte where "b = of_nat cp"
  have ub: "unat b = cp" unfolding b_def using assms by (intro byte_of_nat) arith
  have "utf8_bytes cp = [b]" using assms by (simp add: utf8_bytes_def b_def)
  moreover have "utf8_decode (b # r) = of_nat (unat b) # utf8_decode r"
    using assms ub by (intro decode_one) simp
  ultimately show ?thesis using assms ub by (simp add: utf16_units_def)
qed

lemma decode_bytes2:
  assumes "0x80 \<le> cp" "cp < 0x800"
  shows "utf8_decode (utf8_bytes cp @ r) = utf16_units cp @ utf8_decode r"
proof -
  define b :: byte where "b = of_nat (0xC0 + cp div 64)"
  define b1 :: byte where "b1 = of_nat (0x80 + cp mod 64)"
  have ub: "unat b = 0xC0 + cp div 64" unfolding b_def using assms by (intro byte_of_nat) arith
  have ub1: "unat b1 = 0x80 + cp mod 64" unfolding b1_def by (intro byte_of_nat) arith
  have bytes: "utf8_bytes cp = [b, b1]" using assms by (simp add: utf8_bytes_def b_def b1_def)
  have l1: "0xC2 \<le> unat b" unfolding ub using assms by arith
  have l2: "unat b \<le> 0xDF" unfolding ub using assms by arith
  have c1: "continuation b1" unfolding continuation_def ub1 by arith
  have "utf8_decode (b # b1 # r) =
      utf16_units ((unat b - 0xC0) * 64 + (unat b1 - 0x80)) @ utf8_decode r"
    using l1 l2 c1 by (rule decode_two)
  moreover have "(unat b - 0xC0) * 64 + (unat b1 - 0x80) = cp" by (simp add: ub ub1)
  ultimately show ?thesis by (simp add: bytes)
qed

lemma digits64:
  fixes cp :: nat
  obtains a m r where "cp = a * 4096 + m * 64 + r" "m < 64" "r < 64"
    "cp div 4096 = a" "cp div 64 mod 64 = m" "cp mod 64 = r"
proof
  define q1 where "q1 = cp div 64"
  have h1: "cp = q1 * 64 + cp mod 64" unfolding q1_def by simp
  have h2: "q1 = q1 div 64 * 64 + q1 mod 64" by simp
  show "cp = q1 div 64 * 4096 + q1 mod 64 * 64 + cp mod 64"
    using h1 h2 by linarith
  show "q1 mod 64 < 64" "cp mod 64 < 64" by simp_all
  show "cp div 4096 = q1 div 64"
    unfolding q1_def using div_mult2_eq [of cp 64 64] by simp
  show "cp div 64 mod 64 = q1 mod 64" by (simp only: q1_def)
qed simp

lemma decode_bytes3:
  assumes "0x800 \<le> cp" "cp < 0x10000" "\<not> (0xD800 \<le> cp \<and> cp \<le> 0xDFFF)"
  shows "utf8_decode (utf8_bytes cp @ r) = utf16_units cp @ utf8_decode r"
proof -
  obtain a m l where d: "cp = a * 4096 + m * 64 + l" "m < 64" "l < 64"
    and e: "cp div 4096 = a" "cp div 64 mod 64 = m" "cp mod 64 = l"
    by (rule digits64)
  define b :: byte where "b = of_nat (0xE0 + cp div 4096)"
  define b1 :: byte where "b1 = of_nat (0x80 + cp div 64 mod 64)"
  define b2 :: byte where "b2 = of_nat (0x80 + cp mod 64)"
  have ub: "unat b = 0xE0 + a" unfolding b_def e using assms d by (intro byte_of_nat) linarith
  have ub1: "unat b1 = 0x80 + m" unfolding b1_def e using d by (intro byte_of_nat) linarith
  have ub2: "unat b2 = 0x80 + l" unfolding b2_def e using d by (intro byte_of_nat) linarith
  have bytes: "utf8_bytes cp = [b, b1, b2]"
    using assms by (simp add: utf8_bytes_def b_def b1_def b2_def)
  have l1: "0xE0 \<le> unat b" unfolding ub by linarith
  have l2: "unat b \<le> 0xEF" unfolding ub using assms d by linarith
  have s1: "a = 0 \<Longrightarrow> 0xA0 \<le> 0x80 + m" using assms d by linarith
  have s2: "a = 13 \<Longrightarrow> 0x80 + m \<le> 0x9F" using assms d by linarith
  have s3: "0x80 + m \<le> 0xBF" using d by linarith
  have sec: "second_of_three (unat b) b1"
    unfolding second_of_three_def ub ub1 using s1 s2 s3 by simp
  have c2: "continuation b2" unfolding continuation_def ub2 using d by linarith
  have "utf8_decode (b # b1 # b2 # r) =
      utf16_units ((unat b - 0xE0) * 4096 + (unat b1 - 0x80) * 64 + (unat b2 - 0x80)) @ utf8_decode r"
    using l1 l2 sec c2 by (rule decode_three)
  moreover have "(unat b - 0xE0) * 4096 + (unat b1 - 0x80) * 64 + (unat b2 - 0x80) = cp"
    unfolding ub ub1 ub2 using d by simp
  ultimately show ?thesis by (simp add: bytes)
qed

lemma digits64_4:
  fixes cp :: nat
  obtains a k m r where "cp = a * 262144 + k * 4096 + m * 64 + r" "k < 64" "m < 64" "r < 64"
    "cp div 262144 = a" "cp div 4096 mod 64 = k" "cp div 64 mod 64 = m" "cp mod 64 = r"
proof
  define q1 where "q1 = cp div 64"
  define q2 where "q2 = q1 div 64"
  have h1: "cp = q1 * 64 + cp mod 64" unfolding q1_def by simp
  have h2: "q1 = q2 * 64 + q1 mod 64" unfolding q2_def by simp
  have h3: "q2 = q2 div 64 * 64 + q2 mod 64" by simp
  have e2: "cp div 4096 = q2"
    unfolding q2_def q1_def using div_mult2_eq [of cp 64 64] by simp
  have e3: "cp div 262144 = q2 div 64"
    unfolding e2 [symmetric] using div_mult2_eq [of cp 4096 64] by simp
  show "cp = q2 div 64 * 262144 + q2 mod 64 * 4096 + q1 mod 64 * 64 + cp mod 64"
    using h1 h2 h3 by linarith
  show "q2 mod 64 < 64" "q1 mod 64 < 64" "cp mod 64 < 64" by simp_all
  show "cp div 262144 = q2 div 64" by (rule e3)
  show "cp div 4096 mod 64 = q2 mod 64" by (simp only: e2)
  show "cp div 64 mod 64 = q1 mod 64" by (simp only: q1_def)
qed simp

lemma decode_bytes4:
  assumes "0x10000 \<le> cp" "cp < 0x110000"
  shows "utf8_decode (utf8_bytes cp @ r) = utf16_units cp @ utf8_decode r"
proof -
  obtain a k m l where d: "cp = a * 262144 + k * 4096 + m * 64 + l" "k < 64" "m < 64" "l < 64"
    and e: "cp div 262144 = a" "cp div 4096 mod 64 = k" "cp div 64 mod 64 = m" "cp mod 64 = l"
    by (rule digits64_4)
  define b :: byte where "b = of_nat (0xF0 + cp div 262144)"
  define b1 :: byte where "b1 = of_nat (0x80 + cp div 4096 mod 64)"
  define b2 :: byte where "b2 = of_nat (0x80 + cp div 64 mod 64)"
  define b3 :: byte where "b3 = of_nat (0x80 + cp mod 64)"
  have ub: "unat b = 0xF0 + a" unfolding b_def e using assms d by (intro byte_of_nat) linarith
  have ub1: "unat b1 = 0x80 + k" unfolding b1_def e using d by (intro byte_of_nat) linarith
  have ub2: "unat b2 = 0x80 + m" unfolding b2_def e using d by (intro byte_of_nat) linarith
  have ub3: "unat b3 = 0x80 + l" unfolding b3_def e using d by (intro byte_of_nat) linarith
  have bytes: "utf8_bytes cp = [b, b1, b2, b3]"
    using assms by (simp add: utf8_bytes_def b_def b1_def b2_def b3_def)
  have l1: "0xF0 \<le> unat b" unfolding ub by linarith
  have l2: "unat b \<le> 0xF4" unfolding ub using assms d by linarith
  have s1: "a = 0 \<Longrightarrow> 0x90 \<le> 0x80 + k" using assms d by linarith
  have s2: "a = 4 \<Longrightarrow> 0x80 + k \<le> 0x8F" using assms d by linarith
  have s3: "0x80 + k \<le> 0xBF" using d by linarith
  have sec: "second_of_four (unat b) b1"
    unfolding second_of_four_def ub ub1 using s1 s2 s3 by simp
  have c2: "continuation b2" unfolding continuation_def ub2 using d by linarith
  have c3: "continuation b3" unfolding continuation_def ub3 using d by linarith
  have "utf8_decode (b # b1 # b2 # b3 # r) =
      utf16_units ((unat b - 0xF0) * 262144 + (unat b1 - 0x80) * 4096 + (unat b2 - 0x80) * 64 +
                   (unat b3 - 0x80)) @ utf8_decode r"
    using l1 l2 sec c2 c3 by (rule decode_four)
  moreover have "(unat b - 0xF0) * 262144 + (unat b1 - 0x80) * 4096 + (unat b2 - 0x80) * 64 +
                   (unat b3 - 0x80) = cp"
    unfolding ub ub1 ub2 ub3 using d by simp
  ultimately show ?thesis by (simp add: bytes)
qed

lemma decode_bytes:
  assumes "cp < 0x110000" "\<not> (0xD800 \<le> cp \<and> cp \<le> 0xDFFF)"
  shows "utf8_decode (utf8_bytes cp @ r) = utf16_units cp @ utf8_decode r"
proof -
  consider "cp < 0x80" | "0x80 \<le> cp" "cp < 0x800" | "0x800 \<le> cp" "cp < 0x10000"
    | "0x10000 \<le> cp" by linarith
  then show ?thesis
    using assms by cases (simp_all add: decode_bytes1 decode_bytes2 decode_bytes3 decode_bytes4)
qed

lemma units_of_unit:
  "\<not> is_high_surrogate u \<Longrightarrow> \<not> is_low_surrogate u \<Longrightarrow> utf16_units (unat u) = [u]"
proof -
  have "unat u < 0x10000" using unsigned_less [of u] by simp
  then show ?thesis by (simp add: utf16_units_def)
qed

lemma units_of_pair:
  assumes "is_high_surrogate u" "is_low_surrogate v"
  shows "utf16_units (0x10000 + (unat u - 0xD800) * 1024 + (unat v - 0xDC00)) = [u, v]"
proof -
  define h where "h = unat u - 0xD800"
  define l where "l = unat v - 0xDC00"
  have hu: "unat u = 0xD800 + h" "h < 1024"
    using assms unfolding h_def is_high_surrogate_def by linarith+
  have lv: "unat v = 0xDC00 + l" "l < 1024"
    using assms unfolding l_def is_low_surrogate_def by linarith+
  have "(h * 1024 + l) div 1024 = h" "(h * 1024 + l) mod 1024 = l" using lv by simp_all
  then have "utf16_units (0x10000 + h * 1024 + l) = [of_nat (unat u), of_nat (unat v)]"
    unfolding utf16_units_def hu lv by simp
  then show ?thesis unfolding h_def l_def by simp
qed

lemma utf8_roundtrip: "well_formed s \<Longrightarrow> utf8_decode (utf8_encode s) = s"
proof (induction s rule: utf8_encode.induct)
  case 1
  then show ?case by (simp add: utf8_decode.simps)
next
  case (2 u)
  then have ns: "\<not> is_high_surrogate u" "\<not> is_low_surrogate u" by simp_all
  have "unat u < 0x10000" using unsigned_less [of u] by simp
  then have "utf8_decode (utf8_bytes (unat u) @ []) = utf16_units (unat u) @ utf8_decode []"
    using ns by (intro decode_bytes) (auto simp: is_high_surrogate_def is_low_surrogate_def)
  then show ?case using ns by (simp add: units_of_unit utf8_decode.simps)
next
  case (3 u v rest)
  show ?case
  proof (cases "is_high_surrogate u")
    case True
    with 3 have lo: "is_low_surrogate v" and wf: "well_formed rest" by simp_all
    have ih: "utf8_decode (utf8_encode rest) = rest" using 3 True lo wf by simp
    define cp where "cp = 0x10000 + (unat u - 0xD800) * 1024 + (unat v - 0xDC00)"
    have "0x10000 \<le> cp" "cp < 0x110000"
      using True lo unfolding cp_def is_high_surrogate_def is_low_surrogate_def by linarith+
    then have "utf8_decode (utf8_bytes cp @ utf8_encode rest) = utf16_units cp @ utf8_decode (utf8_encode rest)"
      by (intro decode_bytes) simp_all
    then show ?thesis
      using True lo ih units_of_pair [OF True lo] by (simp add: cp_def)
  next
    case False
    with 3 have nl: "\<not> is_low_surrogate u" and wf: "well_formed (v # rest)" by simp_all
    have ih: "utf8_decode (utf8_encode (v # rest)) = v # rest" using 3 False nl wf by simp
    have "unat u < 0x10000" using unsigned_less [of u] by simp
    then have "utf8_decode (utf8_bytes (unat u) @ utf8_encode (v # rest)) =
        utf16_units (unat u) @ utf8_decode (utf8_encode (v # rest))"
      using False nl by (intro decode_bytes) (auto simp: is_high_surrogate_def is_low_surrogate_def)
    then show ?thesis using False nl ih by (simp add: units_of_unit)
  qed
qed


subsection \<open>UTF-8: what is decoded is well formed\<close>

lemma well_formed_plain: "plain_unit u \<Longrightarrow> well_formed (u # s) = well_formed s"
  by (cases s) (simp_all add: plain_unit_def)

lemma well_formed_pair:
  "is_high_surrogate u \<Longrightarrow> is_low_surrogate v \<Longrightarrow> well_formed (u # v # s) = well_formed s"
  by simp

lemma plain_FFFD: "plain_unit 0xFFFD"
  by (simp add: plain_unit_def is_high_surrogate_def is_low_surrogate_def)

lemma plain_of_nat:
  "cp < 0xD800 \<or> (0xDFFF < cp \<and> cp < 0x10000) \<Longrightarrow> plain_unit (of_nat cp)"
proof -
  assume a: "cp < 0xD800 \<or> (0xDFFF < cp \<and> cp < 0x10000)"
  then have "cp < 65536" by linarith
  then have "unat (of_nat cp :: 16 word) = cp" by (rule unit_of_nat)
  then show ?thesis using a by (auto simp: plain_unit_def is_high_surrogate_def is_low_surrogate_def)
qed

lemma well_formed_units:
  assumes "cp < 0xD800 \<or> (0xDFFF < cp \<and> cp < 0x110000)"
  shows "well_formed (utf16_units cp @ s) = well_formed s"
proof (cases "cp < 0x10000")
  case True
  then have "plain_unit (of_nat cp)" using assms by (intro plain_of_nat) linarith
  then show ?thesis using True by (simp add: utf16_units_def well_formed_plain)
next
  case False
  define d where "d = cp - 0x10000"
  have d: "d < 0x100000" using assms False unfolding d_def by linarith
  have h1: "d div 1024 < 1024" using d by simp
  have h2: "d mod 1024 < 1024" by simp
  have "unat (of_nat (0xD800 + d div 1024) :: 16 word) = 0xD800 + d div 1024"
    using h1 by (intro unit_of_nat) linarith
  then have hi: "is_high_surrogate (of_nat (0xD800 + d div 1024))"
    unfolding is_high_surrogate_def using h1 by simp
  have "unat (of_nat (0xDC00 + d mod 1024) :: 16 word) = 0xDC00 + d mod 1024"
    using h2 by (intro unit_of_nat) linarith
  then have lo: "is_low_surrogate (of_nat (0xDC00 + d mod 1024))"
    unfolding is_low_surrogate_def using h2 by simp
  have "utf16_units cp = [of_nat (0xD800 + d div 1024), of_nat (0xDC00 + d mod 1024)]"
    using False by (simp add: utf16_units_def d_def)
  then show ?thesis using well_formed_pair [OF hi lo] by simp
qed

lemma byte_lt: "unat (b :: byte) < 256"
  using unsigned_less [of b] by simp

lemma well_formed_decode: "well_formed (utf8_decode bs)"
proof (induction bs rule: utf8_decode.induct)
  case 1
  then show ?case by (simp add: utf8_decode.simps)
next
  case (2 b bs)
  define n where "n = unat b"
  note ih = 2 [OF n_def]
  have eq: "utf8_decode (b # bs) =
     (if n < 0x80 then of_nat n # utf8_decode bs
      else if 0xC2 \<le> n \<and> n \<le> 0xDF then
        (case bs of
           [] \<Rightarrow> [0xFFFD]
         | b1 # r1 \<Rightarrow>
             if \<not> continuation b1 then 0xFFFD # utf8_decode bs
             else utf16_units ((n - 0xC0) * 64 + (unat b1 - 0x80)) @ utf8_decode r1)
      else if 0xE0 \<le> n \<and> n \<le> 0xEF then
        (case bs of
           [] \<Rightarrow> [0xFFFD]
         | b1 # r1 \<Rightarrow>
             if \<not> second_of_three n b1 then 0xFFFD # utf8_decode bs
             else (case r1 of
                     [] \<Rightarrow> [0xFFFD]
                   | b2 # r2 \<Rightarrow>
                       if \<not> continuation b2 then 0xFFFD # utf8_decode r1
                       else utf16_units ((n - 0xE0) * 4096 + (unat b1 - 0x80) * 64 + (unat b2 - 0x80))
                            @ utf8_decode r2))
      else if 0xF0 \<le> n \<and> n \<le> 0xF4 then
        (case bs of
           [] \<Rightarrow> [0xFFFD]
         | b1 # r1 \<Rightarrow>
             if \<not> second_of_four n b1 then 0xFFFD # utf8_decode bs
             else (case r1 of
                     [] \<Rightarrow> [0xFFFD]
                   | b2 # r2 \<Rightarrow>
                       if \<not> continuation b2 then 0xFFFD # utf8_decode r1
                       else (case r2 of
                               [] \<Rightarrow> [0xFFFD]
                             | b3 # r3 \<Rightarrow>
                                 if \<not> continuation b3 then 0xFFFD # utf8_decode r2
                                 else utf16_units ((n - 0xF0) * 262144 + (unat b1 - 0x80) * 4096 +
                                                   (unat b2 - 0x80) * 64 + (unat b3 - 0x80))
                                      @ utf8_decode r3)))
      else 0xFFFD # utf8_decode bs)"
    by (simp only: utf8_decode.simps Let_def n_def)
  have F: "well_formed (0xFFFD # s) = well_formed s" for s
    by (rule well_formed_plain [OF plain_FFFD])
  have F1: "well_formed [0xFFFD]" using F [of "[]"] by simp
  consider (ascii) "n < 0x80"
    | (two) "\<not> n < 0x80" "0xC2 \<le> n \<and> n \<le> 0xDF"
    | (three) "\<not> n < 0x80" "\<not> (0xC2 \<le> n \<and> n \<le> 0xDF)" "0xE0 \<le> n \<and> n \<le> 0xEF"
    | (four) "\<not> n < 0x80" "\<not> (0xC2 \<le> n \<and> n \<le> 0xDF)" "\<not> (0xE0 \<le> n \<and> n \<le> 0xEF)"
        "0xF0 \<le> n \<and> n \<le> 0xF4"
    | (bad) "\<not> n < 0x80" "\<not> (0xC2 \<le> n \<and> n \<le> 0xDF)" "\<not> (0xE0 \<le> n \<and> n \<le> 0xEF)"
        "\<not> (0xF0 \<le> n \<and> n \<le> 0xF4)"
    by blast
  then show ?case
  proof cases
    case ascii
    then have "plain_unit (of_nat n)" by (intro plain_of_nat) linarith
    then show ?thesis unfolding eq using ascii ih(1) by (simp add: well_formed_plain)
  next
    case two
    show ?thesis
    proof (cases bs)
      case Nil
      show ?thesis unfolding eq using two F1 Nil by simp
    next
      case (Cons b1 r1)
      show ?thesis
      proof (cases "continuation b1")
        case False
        show ?thesis unfolding eq using two Cons False F ih(2) [OF two Cons] by simp
      next
        case True
        have "(n - 0xC0) * 64 + (unat b1 - 0x80) < 0xD800"
          using two True unfolding continuation_def by linarith
        then have "well_formed (utf16_units ((n - 0xC0) * 64 + (unat b1 - 0x80)) @ s) = well_formed s" for s
          by (intro well_formed_units) simp
        then show ?thesis unfolding eq using two Cons True ih(3) [OF two Cons] by simp
      qed
    qed
  next
    case three
    show ?thesis
    proof (cases bs)
      case Nil
      show ?thesis unfolding eq using three F1 Nil by simp
    next
      case c1: (Cons b1 r1)
      show ?thesis
      proof (cases "second_of_three n b1")
        case False
        show ?thesis unfolding eq using three c1 False F ih(4) [OF three c1] by simp
      next
        case s3: True
        show ?thesis
        proof (cases r1)
          case Nil
          show ?thesis unfolding eq using three c1 s3 F1 Nil by simp
        next
          case c2: (Cons b2 r2)
          show ?thesis
          proof (cases "continuation b2")
            case False
            show ?thesis unfolding eq using three c1 s3 c2 False F ih(5) [OF three c1 _ c2] by simp
          next
            case True
            define cp where "cp = (n - 0xE0) * 4096 + (unat b1 - 0x80) * 64 + (unat b2 - 0x80)"
            have b1r: "0x80 \<le> unat b1" "unat b1 \<le> 0xBF"
              using s3 unfolding second_of_three_def by (auto split: if_splits)
            have e0: "n = 0xE0 \<Longrightarrow> 0xA0 \<le> unat b1"
              using s3 unfolding second_of_three_def by (auto split: if_splits)
            have ed: "n = 0xED \<Longrightarrow> unat b1 \<le> 0x9F"
              using s3 unfolding second_of_three_def by (auto split: if_splits)
            have "cp < 0xD800 \<or> (0xDFFF < cp \<and> cp < 0x110000)"
            proof (cases "n \<le> 0xEC")
              case True
              then show ?thesis using three b1r \<open>continuation b2\<close>
                unfolding cp_def continuation_def by linarith
            next
              case False
              show ?thesis
              proof (cases "n = 0xED")
                case True
                then show ?thesis using ed b1r \<open>continuation b2\<close>
                  unfolding cp_def continuation_def by linarith
              next
                case False
                with \<open>\<not> n \<le> 0xEC\<close> have "0xEE \<le> n" by linarith
                then show ?thesis using three b1r \<open>continuation b2\<close>
                  unfolding cp_def continuation_def by linarith
              qed
            qed
            then have "well_formed (utf16_units cp @ s) = well_formed s" for s
              by (rule well_formed_units)
            then show ?thesis unfolding eq cp_def
              using three c1 s3 c2 True ih(6) [OF three c1 _ c2] by simp
          qed
        qed
      qed
    qed
  next
    case four
    show ?thesis
    proof (cases bs)
      case Nil
      show ?thesis unfolding eq using four F1 Nil by simp
    next
      case c1: (Cons b1 r1)
      show ?thesis
      proof (cases "second_of_four n b1")
        case False
        show ?thesis unfolding eq using four c1 False F ih(7) [OF four c1] by simp
      next
        case s4: True
        show ?thesis
        proof (cases r1)
          case Nil
          show ?thesis unfolding eq using four c1 s4 F1 Nil by simp
        next
          case c2: (Cons b2 r2)
          show ?thesis
          proof (cases "continuation b2")
            case False
            show ?thesis unfolding eq using four c1 s4 c2 False F ih(8) [OF four c1 _ c2] by simp
          next
            case k2: True
            show ?thesis
            proof (cases r2)
              case Nil
              show ?thesis unfolding eq using four c1 s4 c2 k2 F1 Nil by simp
            next
              case c3: (Cons b3 r3)
              show ?thesis
              proof (cases "continuation b3")
                case False
                show ?thesis unfolding eq
                  using four c1 s4 c2 k2 c3 False F ih(9) [OF four c1 _ c2 _ c3] by simp
              next
                case k3: True
                define cp where "cp = (n - 0xF0) * 262144 + (unat b1 - 0x80) * 4096 +
                    (unat b2 - 0x80) * 64 + (unat b3 - 0x80)"
                have b1r: "0x80 \<le> unat b1" "unat b1 \<le> 0xBF"
                  using s4 unfolding second_of_four_def by (auto split: if_splits)
                have f0: "n = 0xF0 \<Longrightarrow> 0x90 \<le> unat b1"
                  using s4 unfolding second_of_four_def by (auto split: if_splits)
                have f4: "n = 0xF4 \<Longrightarrow> unat b1 \<le> 0x8F"
                  using s4 unfolding second_of_four_def by (auto split: if_splits)
                have "0xDFFF < cp \<and> cp < 0x110000"
                proof (cases "n = 0xF0")
                  case True
                  then show ?thesis using f0 b1r k2 k3
                    unfolding cp_def continuation_def by linarith
                next
                  case nf0: False
                  show ?thesis
                  proof (cases "n = 0xF4")
                    case True
                    then show ?thesis using f4 b1r k2 k3
                      unfolding cp_def continuation_def by linarith
                  next
                    case False
                    with nf0 four have "0xF1 \<le> n" "n \<le> 0xF3" by linarith+
                    then show ?thesis using b1r k2 k3
                      unfolding cp_def continuation_def by linarith
                  qed
                qed
                then have "well_formed (utf16_units cp @ s) = well_formed s" for s
                  by (intro well_formed_units) simp
                then show ?thesis unfolding eq cp_def
                  using four c1 s4 c2 k2 c3 k3 ih(10) [OF four c1 _ c2 _ c3] by simp
              qed
            qed
          qed
        qed
      qed
    qed
  next
    case bad
    show ?thesis unfolding eq by (simp only: bad if_False F ih(11) [OF bad])
  qed
qed

subsection \<open>Hexadecimal text and the secret box\<close>

lemma hex_digit_nth:
  "n < 16 \<Longrightarrow> hex_digit_value (''0123456789abcdef'' ! n) = Some n"
proof -
  assume "n < 16"
  then have "n \<in> set [0..<16]" by simp
  also have "[0..<16] = [0, 1, 2, 3, 4, 5, 6, 7, 8, 9, 10, 11, 12, 13, 14, 15::nat]"
    by code_simp
  finally show ?thesis by (auto simp: hex_digit_value_def)
qed

lemma hex_decode_hex_byte: "hex_decode (hex_byte b @ rest) = b # hex_decode rest"
proof -
  have lt: "unat b < 256" using unsigned_less [of b] by simp
  then have d: "unat b div 16 < 16" "unat b mod 16 < 16" by simp_all
  have "16 * (unat b div 16) + unat b mod 16 = unat b" by simp
  then have "(of_nat (16 * (unat b div 16) + unat b mod 16) :: byte) = b" by (simp only: of_nat_unat ucast_id)
  then show ?thesis
    unfolding hex_byte_def by (simp only: append_Cons append_Nil hex_decode.simps hex_digit_nth [OF d(1)] hex_digit_nth [OF d(2)]) simp
qed

lemma hex_decode_encode_append: "hex_decode (hex_encode bs @ rest) = bs @ hex_decode rest"
  by (induction bs) (simp_all add: hex_encode_def hex_decode_hex_byte)

lemma hex_decode_encode: "hex_decode (hex_encode bs) = bs"
  using hex_decode_encode_append [of bs "[]"] by simp

lemma hex_char_value: "hex_char c \<Longrightarrow> \<exists>v. hex_digit_value c = Some v"
  by (auto simp: hex_char_def hex_digit_value_def)

lemma length_hex_decode:
  "list_all hex_char s \<Longrightarrow> length (hex_decode s) = length s div 2"
proof (induction s rule: hex_decode.induct)
  case (1 a b rest)
  then obtain h l where "hex_digit_value a = Some h" "hex_digit_value b = Some l"
    using hex_char_value by fastforce
  then show ?case using 1 by simp
qed simp_all

lemma key_bytes_length: "key_format_ok K \<Longrightarrow> length (secretKey (new_SecretBox K)) = 32"
  by (simp add: key_format_ok_def new_SecretBox_def length_hex_decode)

lemma length_quarterround [simp]: "length (quarterround a b c d x) = length x"
  by (simp add: quarterround_def Let_def)

lemma length_doubleround [simp]: "length (doubleround x) = length x"
  by (simp add: doubleround_def)

lemma length_rounds20 [simp]: "length (rounds20 x) = length x"
proof -
  have "length ((doubleround ^^ n) x) = length x" for n by (induction n) simp_all
  then show ?thesis by (simp add: rounds20_def)
qed

lemma length_words_le [simp]: "length (words_le n bs) = n"
  by (induction n arbitrary: bs) simp_all

lemma length_salsa_input [simp]: "length (salsa_input p k) = 16"
  by (simp add: salsa_input_def Let_def)

lemma length_concat_st32: "length (concat (map (st32 \<circ> f) ws)) = 4 * length ws"
  by (induction ws) (simp_all add: st32_def)

lemma length_core_salsa20 [simp]: "length (core_salsa20 p k) = 64"
  by (simp add: core_salsa20_def Let_def length_concat_st32)

lemma length_blocks:
  "length (concat (map (\<lambda>i. core_salsa20 (f i) k) ixs)) = 64 * length ixs"
  by (induction ixs) simp_all

lemma length_crypto_stream_salsa20 [simp]: "length (crypto_stream_salsa20 len n k) = len"
proof -
  have "len \<le> 64 * ((len + 63) div 64)" by arith
  then show ?thesis by (simp add: crypto_stream_salsa20_def length_blocks)
qed

lemma length_crypto_stream [simp]: "length (crypto_stream len n k) = len"
  by (simp add: crypto_stream_def)

lemma xor_bytes_twice: "length m \<le> length s \<Longrightarrow> xor_bytes (xor_bytes m s) s = m"
proof (induction m arbitrary: s)
  case Nil
  then show ?case by (simp add: xor_bytes_def)
next
  case (Cons a m)
  then obtain b s' where s: "s = b # s'" by (cases s) auto
  with Cons have "xor_bytes (xor_bytes m s') s' = m" by simp
  then show ?case by (simp add: s xor_bytes_def xor.assoc)
qed

lemma length_xor_bytes: "length m \<le> length s \<Longrightarrow> length (xor_bytes m s) = length m"
  by (simp add: xor_bytes_def)

lemma length_onetimeauth [simp]: "length (crypto_onetimeauth m k) = 16"
  by (simp add: crypto_onetimeauth_def le_bytes_def Let_def)

lemma secretbox_open_secretbox:
  "crypto_secretbox_open (crypto_secretbox m n k) n k = Some m"
proof -
  define s where "s = crypto_stream (32 + length m) n k"
  define c where "c = xor_bytes m (drop 32 s)"
  have ls: "length (drop 32 s) = length m" by (simp add: s_def)
  have lc: "length c = length m" unfolding c_def using ls by (simp add: length_xor_bytes)
  have box: "crypto_secretbox m n k = crypto_onetimeauth c (take 32 s) @ c"
    by (simp add: crypto_secretbox_def s_def c_def Let_def)
  have xm: "xor_bytes c (drop 32 s) = m" unfolding c_def using ls by (simp add: xor_bytes_twice)
  show ?thesis
    unfolding box crypto_secretbox_open_def
    by (simp add: Let_def lc s_def [symmetric] xm)
qed

lemma length_crypto_secretbox: "length (crypto_secretbox m n k) = 16 + length m"
  by (simp add: crypto_secretbox_def Let_def length_xor_bytes)

lemma encrypt_ok:
  "length (secretKey box) = 32 \<Longrightarrow> length nonce = 24 \<Longrightarrow>
   encrypt box nonce msg =
     Inr (hex_encode (nonce @ crypto_secretbox (utf8_encode msg) nonce (secretKey box)))"
  by (simp add: encrypt_def nacl_secretbox_def)

lemma decrypt_encrypted:
  assumes "length key = 32" "length nonce = 24"
  shows "decrypt \<lparr>secretKey = key\<rparr> (hex_encode (nonce @ crypto_secretbox bs nonce key)) =
     Inr (utf8_decode bs)"
  using assms
  by (simp add: decrypt_def hex_decode_encode NONCE_BYTES_def nacl_secretbox_open_def
      length_crypto_secretbox secretbox_open_secretbox)

lemma encrypt_decrypt_bytes:
  assumes "key_format_ok K" "length nonce = 24"
  shows "\<exists>h. encrypt (new_SecretBox K) nonce P = Inr h \<and>
             decrypt (new_SecretBox K) h = Inr (utf8_decode (utf8_encode P))"
proof -
  have k: "length (hex_decode K) = 32" using key_bytes_length [OF assms(1)] by (simp add: new_SecretBox_def)
  show ?thesis
    using k assms(2) by (simp add: encrypt_ok new_SecretBox_def decrypt_encrypted)
qed

subsection \<open>The rotation loop\<close>

lemma rotate_step_cases:
  "row_outcome ob nb w i row = Inl e \<Longrightarrow>
     successCount (rotate_step ob nb w st i row) = successCount st \<and>
     errorCount (rotate_step ob nb w st i row) = errorCount st + 1 \<and>
     errors_list (rotate_step ob nb w st i row) =
       errors_list st @ [(shortAlias (row_alias row), error_message e)] \<and>
     table_now (rotate_step ob nb w st i row) = table_now st"
  "row_outcome ob nb w i row = Inr v \<Longrightarrow>
     successCount (rotate_step ob nb w st i row) = successCount st + 1 \<and>
     errorCount (rotate_step ob nb w st i row) = errorCount st \<and>
     errors_list (rotate_step ob nb w st i row) = errors_list st \<and>
     table_now (rotate_step ob nb w st i row) = update_table (table_now st) v (row_alias row)"
  by (auto simp: row_outcome_def rotate_step_def split: prod.splits sum.splits option.splits)

lemma stored_for_absent:
  "a \<notin> row_alias ` set rest \<Longrightarrow> stored_for ob nb w i rest a = None"
  by (induction rest arbitrary: i) auto

lemma rotate_loop_counts:
  "successCount (rotate_loop ob nb w st i rest) + errorCount (rotate_loop ob nb w st i rest) =
     successCount st + errorCount st + length rest \<and>
   errorCount (rotate_loop ob nb w st i rest) = errorCount st + length (failures ob nb w i rest) \<and>
   errors_list (rotate_loop ob nb w st i rest) = errors_list st @ failures ob nb w i rest"
proof (induction rest arbitrary: st i)
  case Nil
  then show ?case by simp
next
  case (Cons row rest)
  show ?case
  proof (cases "row_outcome ob nb w i row")
    case (Inl e)
    then show ?thesis using Cons [of "rotate_step ob nb w st i row" "Suc i"]
      by (simp add: rotate_step_cases(1) [OF Inl])
  next
    case (Inr v)
    then show ?thesis using Cons [of "rotate_step ob nb w st i row" "Suc i"]
      by (simp add: rotate_step_cases(2) [OF Inr])
  qed
qed

lemma rotate_loop_table:
  "distinct (map row_alias rest) \<Longrightarrow>
   table_now (rotate_loop ob nb w st i rest) =
     map (\<lambda>r. case stored_for ob nb w i rest (row_alias r) of
                 None \<Rightarrow> r
               | Some v \<Rightarrow> r\<lparr>privateKeyHex := v\<rparr>) (table_now st)"
proof (induction rest arbitrary: st i)
  case Nil
  then show ?case by (simp add: map_idI)
next
  case (Cons row rest)
  then have d: "distinct (map row_alias rest)" and na: "row_alias row \<notin> row_alias ` set rest"
    by simp_all
  note ih = Cons.IH [OF d, of "rotate_step ob nb w st i row" "Suc i"]
  show ?case
  proof (cases "row_outcome ob nb w i row")
    case (Inl e)
    then show ?thesis using ih na
      by (auto simp: rotate_step_cases(1) [OF Inl] stored_for_absent)
  next
    case (Inr v)
    then show ?thesis using ih na
      by (auto simp: rotate_step_cases(2) [OF Inr] stored_for_absent update_table_def)
  qed
qed

lemma stored_for_nth:
  "distinct (map row_alias rest) \<Longrightarrow> j < length rest \<Longrightarrow>
   stored_for ob nb w i rest (row_alias (rest ! j)) =
     (case row_outcome ob nb w (i + j) (rest ! j) of Inl e \<Rightarrow> None | Inr v \<Rightarrow> Some v)"
proof (induction rest arbitrary: i j)
  case Nil
  then show ?case by simp
next
  case (Cons row rest)
  show ?case
  proof (cases j)
    case 0
    then show ?thesis by simp
  next
    case (Suc k)
    with Cons.prems have k: "k < length rest" and d: "distinct (map row_alias rest)"
      and ne: "row_alias row \<noteq> row_alias (rest ! k)" by auto
    show ?thesis using Cons.IH [OF d k, of "Suc i"] ne Suc by simp
  qed
qed

lemma failures_nth:
  "j < length rest \<Longrightarrow> row_outcome ob nb w (i + j) (rest ! j) = Inl e \<Longrightarrow>
   (shortAlias (row_alias (rest ! j)), error_message e) \<in> set (failures ob nb w i rest)"
proof (induction rest arbitrary: i j)
  case Nil
  then show ?case by simp
next
  case (Cons row rest)
  show ?case
  proof (cases j)
    case 0
    with Cons.prems show ?thesis by simp
  next
    case (Suc k)
    with Cons.prems have "k < length rest" "row_outcome ob nb w (Suc i + k) (rest ! k) = Inl e"
      by simp_all
    then have "(shortAlias (row_alias (rest ! k)), error_message e) \<in> set (failures ob nb w (Suc i) rest)"
      by (rule Cons.IH)
    then show ?thesis using Suc by (simp split: sum.splits)
  qed
qed

lemma failures_empty_iff:
  "failures ob nb w i rest = [] \<longleftrightarrow> (\<forall>j < length rest. \<exists>v. row_outcome ob nb w (i + j) (rest ! j) = Inr v)"
proof (induction rest arbitrary: i)
  case Nil
  then show ?case by simp
next
  case (Cons row rest)
  show ?case
  proof (cases "row_outcome ob nb w i row")
    case (Inl e)
    then have "\<not> (\<exists>v. row_outcome ob nb w (i + 0) ((row # rest) ! 0) = Inr v)" by simp
    then have "\<not> (\<forall>j < length (row # rest). \<exists>v. row_outcome ob nb w (i + j) ((row # rest) ! j) = Inr v)"
      by (metis length_greater_0_conv list.distinct(1))
    then show ?thesis using Inl by simp
  next
    case (Inr v)
    have "(\<forall>j < length (row # rest). \<exists>v. row_outcome ob nb w (i + j) ((row # rest) ! j) = Inr v) \<longleftrightarrow>
          (\<forall>j < length rest. \<exists>v. row_outcome ob nb w (Suc i + j) (rest ! j) = Inr v)"
      using Inr by (auto simp: less_Suc_eq_0_disj)
    then show ?thesis using Inr Cons.IH [of "Suc i"] by simp
  qed
qed

subsection \<open>The secret box at the example keys\<close>







































































subsection \<open>Encryption and decryption\<close>

lemma key_format_samples:
  "key_format_ok test_key" "key_format_ok upper_key" "key_format_ok new_key"
  by (simp_all add: key_format_ok_def test_key_def upper_key_def new_key_def hex_char_def)


lemma well_formed_hello: "well_formed hello"
  by (simp add: hello_def is_high_surrogate_def is_low_surrogate_def)

lemma encrypt_sealed:
  "key_format_ok K \<Longrightarrow> length nonce = 24 \<Longrightarrow> encrypt (new_SecretBox K) nonce P = Inr (sealed K nonce P)"
  using key_bytes_length [of K] by (simp add: encrypt_ok sealed_def new_SecretBox_def)

lemma decrypt_sealed:
  "key_format_ok K \<Longrightarrow> length nonce = 24 \<Longrightarrow>
   decrypt (new_SecretBox K) (sealed K nonce P) = Inr (utf8_decode (utf8_encode P))"
  using key_bytes_length [of K] by (simp add: sealed_def new_SecretBox_def decrypt_encrypted)








subsection \<open>Key rotation\<close>

lemma rotate_run:
  assumes "key_format_ok oldKey" "key_format_ok newKey" "connect_rejects w = None"
    "select_rejects w = None"
  shows "rotateEncryptionKey oldKey newKey w =
     (let st = rotate_loop (new_SecretBox oldKey) (new_SecretBox newKey) w
                 ((rotate_init w)\<lparr>events := [Connect, Select]\<rparr>) 0 (private_key_table w)
      in if private_key_table w = []
         then (Inr \<lparr>success = 0, errors = 0\<rparr>, (rotate_init w)\<lparr>events := [Connect, Select, End]\<rparr>)
         else if errorCount st > 0
         then (Inl (RotationFailed (errorCount st)), st\<lparr>events := events st @ [End]\<rparr>)
         else (Inr \<lparr>success = successCount st, errors = errorCount st\<rparr>,
               st\<lparr>events := events st @ [End]\<rparr>))"
  using assms by (simp add: rotateEncryptionKey_def Let_def)

lemma rotate_state_fields:
  assumes "key_format_ok oldKey" "key_format_ok newKey" "connect_rejects w = None"
    "select_rejects w = None"
  defines "fs \<equiv> failures (new_SecretBox oldKey) (new_SecretBox newKey) w 0 (private_key_table w)"
  defines "st \<equiv> snd (rotateEncryptionKey oldKey newKey w)"
  shows "successCount st + errorCount st = length (private_key_table w)"
    and "errorCount st = length fs"
    and "errors_list st = fs"
    and "distinct (map row_alias (private_key_table w)) \<Longrightarrow>
         table_now st =
           map (\<lambda>r. case stored_for (new_SecretBox oldKey) (new_SecretBox newKey) w 0
                            (private_key_table w) (row_alias r) of
                       None \<Rightarrow> r
                     | Some v \<Rightarrow> r\<lparr>privateKeyHex := v\<rparr>) (private_key_table w)"
    and "fst (rotateEncryptionKey oldKey newKey w) =
           (if fs = [] then Inr \<lparr>success = length (private_key_table w), errors = 0\<rparr>
            else Inl (RotationFailed (length fs)))"
proof -
  define st0 where "st0 = (rotate_init w)\<lparr>events := [Connect, Select]\<rparr>"
  define lp where "lp = rotate_loop (new_SecretBox oldKey) (new_SecretBox newKey) w st0 0 (private_key_table w)"
  have c: "successCount lp + errorCount lp = length (private_key_table w)"
    "errorCount lp = length fs" "errors_list lp = fs"
    using rotate_loop_counts [of "new_SecretBox oldKey" "new_SecretBox newKey" w st0 0 "private_key_table w"]
    by (simp_all add: lp_def st0_def rotate_init_def fs_def)
  have t: "distinct (map row_alias (private_key_table w)) \<Longrightarrow>
      table_now lp = map (\<lambda>r. case stored_for (new_SecretBox oldKey) (new_SecretBox newKey) w 0
                            (private_key_table w) (row_alias r) of
                       None \<Rightarrow> r
                     | Some v \<Rightarrow> r\<lparr>privateKeyHex := v\<rparr>) (private_key_table w)"
    using rotate_loop_table [of "private_key_table w" "new_SecretBox oldKey" "new_SecretBox newKey" w st0 0]
    by (simp add: lp_def st0_def rotate_init_def)
  have run: "rotateEncryptionKey oldKey newKey w =
      (if private_key_table w = []
         then (Inr \<lparr>success = 0, errors = 0\<rparr>, (rotate_init w)\<lparr>events := [Connect, Select, End]\<rparr>)
         else if errorCount lp > 0
         then (Inl (RotationFailed (errorCount lp)), lp\<lparr>events := events lp @ [End]\<rparr>)
         else (Inr \<lparr>success = successCount lp, errors = errorCount lp\<rparr>,
               lp\<lparr>events := events lp @ [End]\<rparr>))"
    using rotate_run [OF assms(1-4)] by (simp add: Let_def lp_def st0_def)
  have e: "private_key_table w = [] \<Longrightarrow> fs = []" by (simp add: fs_def)
  show "successCount st + errorCount st = length (private_key_table w)"
    unfolding st_def run using c by (auto simp: rotate_init_def)
  show "errorCount st = length fs"
    unfolding st_def run using c e by (auto simp: rotate_init_def)
  show "errors_list st = fs"
    unfolding st_def run using c e by (auto simp: rotate_init_def)
  show "table_now st = map (\<lambda>r. case stored_for (new_SecretBox oldKey) (new_SecretBox newKey) w 0
                            (private_key_table w) (row_alias r) of
                       None \<Rightarrow> r
                     | Some v \<Rightarrow> r\<lparr>privateKeyHex := v\<rparr>) (private_key_table w)"
    if "distinct (map row_alias (private_key_table w))"
    unfolding st_def run using t [OF that] by (simp add: rotate_init_def)
  show "fst (rotateEncryptionKey oldKey newKey w) =
           (if fs = [] then Inr \<lparr>success = length (private_key_table w), errors = 0\<rparr>
            else Inl (RotationFailed (length fs)))"
  proof (cases "fs = []")
    case True
    then have "successCount lp = length (private_key_table w)" "errorCount lp = 0" using c by simp_all
    then show ?thesis unfolding run using True by simp
  next
    case False
    then have "private_key_table w \<noteq> []" "errorCount lp > 0" using c e by auto
    then show ?thesis unfolding run using False c by simp
  qed
qed

lemma decrypt_well_formed: "decrypt box hex = Inr P \<Longrightarrow> well_formed P"
  by (auto simp: decrypt_def Let_def well_formed_decode split: sum.splits option.splits)

lemma reencrypt_Inr:
  "fst (reencrypt ob nb nonce hex) = Inr v \<Longrightarrow>
   \<exists>P. decrypt ob hex = Inr P \<and> encrypt nb nonce P = Inr v \<and> decrypt nb v = Inr P"
  by (auto simp: reencrypt_def split: sum.splits if_splits)

lemma reencrypt_ok:
  assumes "decrypt ob hex = Inr P" "key_format_ok newKey" "length nonce = 24"
  shows "fst (reencrypt ob (new_SecretBox newKey) nonce hex) = Inr (sealed newKey nonce P)"
proof -
  have wf: "well_formed P" using assms(1) by (rule decrypt_well_formed)
  show ?thesis
    using assms(1) encrypt_sealed [OF assms(2,3), of P] decrypt_sealed [OF assms(2,3), of P]
      utf8_roundtrip [OF wf]
    by (simp add: reencrypt_def)
qed

text \<open>C3. When the old key or the new key is not exactly 64 hexadecimal characters,
  \<open>rotateEncryptionKey\<close> throws the key-format error of the first key that fails, with no event
  (no connection, no query, no cryptographic operation, no update) and the table as it was.\<close>

theorem key_format_checked_first:
  assumes "\<not> key_format_ok oldKey \<or> \<not> key_format_ok newKey"
  shows "rotateEncryptionKey oldKey newKey w =
           (Inl (if \<not> key_format_ok oldKey then OldKeyFormat else NewKeyFormat), rotate_init w) \<and>
         events (rotate_init w) = [] \<and>
         table_now (rotate_init w) = private_key_table w \<and>
         successCount (rotate_init w) = 0 \<and> errorCount (rotate_init w) = 0"
  using assms by (auto simp: rotateEncryptionKey_def Let_def rotate_init_def)

text \<open>C3 at the old key of the test suite's rejection test.\<close>

theorem key_format_checked_first_witness:
  "\<not> key_format_ok ''invalid'' \<and>
   rotateEncryptionKey ''invalid'' new_key sample_world = (Inl OldKeyFormat, rotate_init sample_world) \<and>
   error_message OldKeyFormat = ''OLD_KEY must be 64 hex characters'' \<and>
   events (rotate_init sample_world) = [] \<and>
   table_now (rotate_init sample_world) = private_key_table sample_world"
proof -
  have k: "\<not> key_format_ok ''invalid''" by (simp add: key_format_ok_def)
  then have "\<not> key_format_ok ''invalid'' \<or> \<not> key_format_ok new_key" by simp
  from key_format_checked_first [OF this, of sample_world] k show ?thesis by simp
qed

lemma row_outcome_Inr:
  "row_outcome ob nb w i row = Inr v \<Longrightarrow>
   \<exists>P. decrypt ob (privateKeyHex row) = Inr P \<and> decrypt nb v = Inr P"
  using reencrypt_Inr [of ob nb "randomBytes w i" "privateKeyHex row" v]
  by (auto simp: row_outcome_def split: sum.splits option.splits)

lemma rotation_per_record_general:
  assumes "key_format_ok oldKey" "key_format_ok newKey" "connect_rejects w = None"
    "select_rejects w = None" "distinct (map row_alias (private_key_table w))"
    "j < length (private_key_table w)"
  shows "successCount (snd (rotateEncryptionKey oldKey newKey w)) +
           errorCount (snd (rotateEncryptionKey oldKey newKey w)) = length (private_key_table w) \<and>
         (case outcome_at oldKey newKey w j of
            Inl e \<Rightarrow>
              table_now (snd (rotateEncryptionKey oldKey newKey w)) ! j = private_key_table w ! j \<and>
              (shortAlias (row_alias (private_key_table w ! j)), error_message e)
                 \<in> set (errors_list (snd (rotateEncryptionKey oldKey newKey w))) \<and>
              0 < errorCount (snd (rotateEncryptionKey oldKey newKey w))
          | Inr v \<Rightarrow>
              table_now (snd (rotateEncryptionKey oldKey newKey w)) ! j =
                (private_key_table w ! j)\<lparr>privateKeyHex := v\<rparr> \<and>
              (\<exists>P. decrypt (new_SecretBox oldKey) (privateKeyHex (private_key_table w ! j)) = Inr P \<and>
                   decrypt (new_SecretBox newKey) v = Inr P))"
proof -
  define ob where "ob = new_SecretBox oldKey"
  define nb where "nb = new_SecretBox newKey"
  define tbl where "tbl = private_key_table w"
  define st where "st = snd (rotateEncryptionKey oldKey newKey w)"
  note f = rotate_state_fields [OF assms(1-4), folded ob_def nb_def tbl_def st_def]
  have j: "j < length tbl" using assms(6) by (simp add: tbl_def)
  have d: "distinct (map row_alias tbl)" using assms(5) by (simp add: tbl_def)
  have sf: "stored_for ob nb w 0 tbl (row_alias (tbl ! j)) =
      (case row_outcome ob nb w j (tbl ! j) of Inl e \<Rightarrow> None | Inr v \<Rightarrow> Some v)"
    using stored_for_nth [OF d j, of ob nb w 0] by simp
  have tn: "table_now st ! j =
      (case row_outcome ob nb w j (tbl ! j) of Inl e \<Rightarrow> tbl ! j | Inr v \<Rightarrow> (tbl ! j)\<lparr>privateKeyHex := v\<rparr>)"
    using f(4) [OF d] j sf by (simp split: sum.splits)
  have out: "outcome_at oldKey newKey w j = row_outcome ob nb w j (tbl ! j)"
    by (simp add: outcome_at_def ob_def nb_def tbl_def)
  have cnt: "successCount st + errorCount st = length tbl" by (rule f(1))
  show ?thesis
  proof (cases "row_outcome ob nb w j (tbl ! j)")
    case (Inl e)
    then have m: "(shortAlias (row_alias (tbl ! j)), error_message e) \<in> set (errors_list st)"
      using failures_nth [OF j, of ob nb w 0 e] f(3) by simp
    then have "errors_list st \<noteq> []" by auto
    then have "0 < errorCount st" using f(2,3) by simp
    then show ?thesis
      using Inl m tn cnt unfolding out st_def [symmetric] tbl_def [symmetric] by simp
  next
    case (Inr v)
    then have "\<exists>P. decrypt ob (privateKeyHex (tbl ! j)) = Inr P \<and> decrypt nb v = Inr P"
      by (rule row_outcome_Inr)
    then show ?thesis
      using Inr tn cnt unfolding out st_def [symmetric] tbl_def [symmetric] ob_def nb_def by simp
  qed
qed


lemma decrypt_corrupt: "key_format_ok K \<Longrightarrow> decrypt (new_SecretBox K) corrupt_hex = Inl DecryptionFailed"
proof -
  assume "key_format_ok K"
  then have k: "length (hex_decode K) = 32" using key_bytes_length [of K] by (simp add: new_SecretBox_def)
  have h: "hex_decode corrupt_hex = replicate 24 0"
    by (simp add: corrupt_hex_def hex_digit_value_def eval_nat_numeral)
  show ?thesis
    by (simp add: decrypt_def h NONCE_BYTES_def nacl_secretbox_open_def new_SecretBox_def k)
qed

lemma sample_row_outcomes:
  "row_outcome (new_SecretBox test_key) (new_SecretBox new_key) sample_world i row_A =
     Inr (sealed new_key zero_nonce hello)"
  "row_outcome (new_SecretBox test_key) (new_SecretBox new_key) sample_world i row_R =
     Inl DecryptionFailed"
  "row_outcome (new_SecretBox test_key) (new_SecretBox new_key) sample_world i row_B =
     Inr (sealed new_key zero_nonce [0x42])"
proof -
  have n: "length zero_nonce = 24" by (simp add: zero_nonce_def)
  have wf: "well_formed [0x42]" by (simp add: is_high_surrogate_def is_low_surrogate_def)
  have a: "decrypt (new_SecretBox test_key) (sealed test_key zero_nonce hello) = Inr hello"
    using decrypt_sealed [OF key_format_samples(1) n, of hello] utf8_roundtrip [OF well_formed_hello]
    by simp
  have b: "decrypt (new_SecretBox test_key) (sealed test_key zero_nonce [0x42]) = Inr [0x42]"
    using decrypt_sealed [OF key_format_samples(1) n, of "[0x42]"] utf8_roundtrip [OF wf]
    by simp
  show "row_outcome (new_SecretBox test_key) (new_SecretBox new_key) sample_world i row_A =
     Inr (sealed new_key zero_nonce hello)"
    using reencrypt_ok [OF a key_format_samples(3) n]
    by (simp add: row_outcome_def sample_world_def row_A_def)
  show "row_outcome (new_SecretBox test_key) (new_SecretBox new_key) sample_world i row_B =
     Inr (sealed new_key zero_nonce [0x42])"
    using reencrypt_ok [OF b key_format_samples(3) n]
    by (simp add: row_outcome_def sample_world_def row_B_def)
  show "row_outcome (new_SecretBox test_key) (new_SecretBox new_key) sample_world i row_R =
     Inl DecryptionFailed"
    using decrypt_corrupt [OF key_format_samples(1)]
    by (simp add: row_outcome_def sample_world_def reencrypt_def row_R_def)
qed

lemma sample_world_facts:
  "connect_rejects sample_world = None" "select_rejects sample_world = None"
  "distinct (map row_alias (private_key_table sample_world))"
  "length (private_key_table sample_world) = 3"
  "private_key_table sample_world = [row_A, row_R, row_B]"
  by (simp_all add: sample_world_def row_A_def row_R_def row_B_def)

lemma sample_outcomes:
  "outcome_at test_key new_key sample_world 0 = Inr (sealed new_key zero_nonce hello)"
  "outcome_at test_key new_key sample_world 1 = Inl DecryptionFailed"
  "outcome_at test_key new_key sample_world 2 = Inr (sealed new_key zero_nonce [0x42])"
  by (simp_all add: outcome_at_def sample_world_facts(5) sample_row_outcomes)

lemma sample_failures:
  "failures (new_SecretBox test_key) (new_SecretBox new_key) sample_world 0
     (private_key_table sample_world) =
   [(''key-R'', ''Decryption failed - wrong key or corrupted data'')]"
  by (simp add: sample_world_facts(5) sample_row_outcomes) (simp add: row_R_def shortAlias_def)



lemma rotate_result_errors: "fst (rotateEncryptionKey oldKey newKey w) = Inr res \<Longrightarrow> errors res = 0"
  by (auto simp: rotateEncryptionKey_def Let_def split: if_splits option.splits)

lemma rotate_throws_on_errors:
  "0 < errorCount (snd (rotateEncryptionKey oldKey newKey w)) \<Longrightarrow>
   fst (rotateEncryptionKey oldKey newKey w) =
     Inl (RotationFailed (errorCount (snd (rotateEncryptionKey oldKey newKey w))))"
  by (auto simp: rotateEncryptionKey_def Let_def rotate_init_def split: if_splits option.splits)

text \<open>C10. A result that \<open>rotateEncryptionKey\<close> returns has an error count of 0. With an empty
  table it returns \<open>{success: 0, errors: 0}\<close> after connecting and selecting, with no update.
  When the processing of some row fails, the run ends in the thrown error carrying the error
  count, after all rows were processed, and every row that succeeded holds its new
  ciphertext.\<close>

theorem rotation_result_without_errors:
  "(\<forall>res. fst (rotateEncryptionKey oldKey newKey w) = Inr res \<longrightarrow> errors res = 0) \<and>
   (key_format_ok oldKey \<and> key_format_ok newKey \<and> connect_rejects w = None \<and>
    select_rejects w = None \<longrightarrow>
      (private_key_table w = [] \<longrightarrow>
         rotateEncryptionKey oldKey newKey w =
           (Inr \<lparr>success = 0, errors = 0\<rparr>, (rotate_init w)\<lparr>events := [Connect, Select, End]\<rparr>)) \<and>
      ((\<exists>j < length (private_key_table w). \<exists>e. outcome_at oldKey newKey w j = Inl e) \<longrightarrow>
         fst (rotateEncryptionKey oldKey newKey w) =
           Inl (RotationFailed (errorCount (snd (rotateEncryptionKey oldKey newKey w)))) \<and>
         0 < errorCount (snd (rotateEncryptionKey oldKey newKey w)) \<and>
         successCount (snd (rotateEncryptionKey oldKey newKey w)) +
           errorCount (snd (rotateEncryptionKey oldKey newKey w)) = length (private_key_table w) \<and>
         (distinct (map row_alias (private_key_table w)) \<longrightarrow>
            (\<forall>j < length (private_key_table w). \<forall>v. outcome_at oldKey newKey w j = Inr v \<longrightarrow>
               table_now (snd (rotateEncryptionKey oldKey newKey w)) ! j =
                 (private_key_table w ! j)\<lparr>privateKeyHex := v\<rparr>))))"
proof (intro conjI allI impI)
  fix res assume "fst (rotateEncryptionKey oldKey newKey w) = Inr res"
  then show "errors res = 0" by (rule rotate_result_errors)
next
  assume a: "key_format_ok oldKey \<and> key_format_ok newKey \<and> connect_rejects w = None \<and>
    select_rejects w = None" and e: "private_key_table w = []"
  then show "rotateEncryptionKey oldKey newKey w =
           (Inr \<lparr>success = 0, errors = 0\<rparr>, (rotate_init w)\<lparr>events := [Connect, Select, End]\<rparr>)"
    by (simp add: rotateEncryptionKey_def Let_def)
next
  assume a: "key_format_ok oldKey \<and> key_format_ok newKey \<and> connect_rejects w = None \<and>
    select_rejects w = None"
    and f: "\<exists>j < length (private_key_table w). \<exists>e. outcome_at oldKey newKey w j = Inl e"
  then obtain j e where j: "j < length (private_key_table w)"
    and o: "outcome_at oldKey newKey w j = Inl e" by blast
  note fld = rotate_state_fields [of oldKey newKey w]
  have "(shortAlias (row_alias (private_key_table w ! j)), error_message e) \<in>
      set (failures (new_SecretBox oldKey) (new_SecretBox newKey) w 0 (private_key_table w))"
    using failures_nth [OF j, of "new_SecretBox oldKey" "new_SecretBox newKey" w 0 e] o
    by (simp add: outcome_at_def)
  then have "failures (new_SecretBox oldKey) (new_SecretBox newKey) w 0 (private_key_table w) \<noteq> []"
    by auto
  then show pos: "0 < errorCount (snd (rotateEncryptionKey oldKey newKey w))"
    using fld(2) a by simp
  then show "fst (rotateEncryptionKey oldKey newKey w) =
           Inl (RotationFailed (errorCount (snd (rotateEncryptionKey oldKey newKey w))))"
    by (rule rotate_throws_on_errors)
  show "successCount (snd (rotateEncryptionKey oldKey newKey w)) +
           errorCount (snd (rotateEncryptionKey oldKey newKey w)) = length (private_key_table w)"
    using fld(1) a by simp
next
  fix j v
  assume a: "key_format_ok oldKey \<and> key_format_ok newKey \<and> connect_rejects w = None \<and>
    select_rejects w = None"
    and d: "distinct (map row_alias (private_key_table w))"
    and j: "j < length (private_key_table w)" and o: "outcome_at oldKey newKey w j = Inr v"
  from a have a': "key_format_ok oldKey" "key_format_ok newKey" "connect_rejects w = None"
    "select_rejects w = None" by simp_all
  show "table_now (snd (rotateEncryptionKey oldKey newKey w)) ! j =
                 (private_key_table w ! j)\<lparr>privateKeyHex := v\<rparr>"
    using rotation_per_record_general [OF a' d j] o by simp
qed

text \<open>C10 at the empty table and at the table of three rows of which the second is
  corrupt.\<close>

theorem rotation_result_without_errors_witness:
  "key_format_ok test_key \<and> key_format_ok new_key \<and>
   connect_rejects sample_world = None \<and> select_rejects sample_world = None \<and>
   connect_rejects empty_world = None \<and> select_rejects empty_world = None \<and>
   private_key_table empty_world = [] \<and>
   rotateEncryptionKey test_key new_key empty_world =
     (Inr \<lparr>success = 0, errors = 0\<rparr>, (rotate_init empty_world)\<lparr>events := [Connect, Select, End]\<rparr>) \<and>
   (1::nat) < length (private_key_table sample_world) \<and>
   outcome_at test_key new_key sample_world 1 = Inl DecryptionFailed \<and>
   fst (rotateEncryptionKey test_key new_key sample_world) = Inl (RotationFailed 1) \<and>
   successCount (snd (rotateEncryptionKey test_key new_key sample_world)) = 2 \<and>
   distinct (map row_alias (private_key_table sample_world)) \<and>
   outcome_at test_key new_key sample_world 2 = Inr (sealed new_key zero_nonce [0x42]) \<and>
   table_now (snd (rotateEncryptionKey test_key new_key sample_world)) ! 2 =
     row_B\<lparr>privateKeyHex := sealed new_key zero_nonce [0x42]\<rparr>"
proof -
  have ew: "connect_rejects empty_world = None" "select_rejects empty_world = None"
    "private_key_table empty_world = []"
    by (simp_all add: empty_world_def sample_world_def)
  have j1: "1 < length (private_key_table sample_world)" by (simp add: sample_world_def)
  have j2: "2 < length (private_key_table sample_world)" by (simp add: sample_world_def)
  have ex: "\<exists>j < length (private_key_table sample_world). \<exists>e. outcome_at test_key new_key sample_world j = Inl e"
    using j1 sample_outcomes(2) by blast
  note k = key_format_samples(1) key_format_samples(3)
  note t = rotation_result_without_errors [of test_key new_key empty_world]
  note u = rotation_result_without_errors [of test_key new_key sample_world]
  have e1: "rotateEncryptionKey test_key new_key empty_world =
     (Inr \<lparr>success = 0, errors = 0\<rparr>, (rotate_init empty_world)\<lparr>events := [Connect, Select, End]\<rparr>)"
    using t k ew by blast
  have s1: "fst (rotateEncryptionKey test_key new_key sample_world) =
      Inl (RotationFailed (errorCount (snd (rotateEncryptionKey test_key new_key sample_world))))"
    and s2: "successCount (snd (rotateEncryptionKey test_key new_key sample_world)) +
      errorCount (snd (rotateEncryptionKey test_key new_key sample_world)) = 3"
    and s3: "table_now (snd (rotateEncryptionKey test_key new_key sample_world)) ! 2 =
      (private_key_table sample_world ! 2)\<lparr>privateKeyHex := sealed new_key zero_nonce [0x42]\<rparr>"
    using u k sample_world_facts(1-4) ex j2 sample_outcomes(3) by (blast, force, blast)
  have ec: "errorCount (snd (rotateEncryptionKey test_key new_key sample_world)) = 1"
    using rotate_state_fields(2) [OF k sample_world_facts(1,2)] by (simp add: sample_failures)
  have r2: "private_key_table sample_world ! 2 = row_B" by (simp add: sample_world_def)
  show ?thesis
    using e1 s1 s2 s3 ec k ew sample_world_facts(1-4) j1 sample_outcomes(2,3) r2
    by simp
qed

text \<open>C5, as stated, at a restore of one statement that fails: the error count is 1 and the
  result reports success.\<close>

theorem aggregate_failure_counterexample:
  "restore_success (fst (restore_replay sample_query () [''BAD;''])) \<and>
   restore_errors (fst (restore_replay sample_query () [''BAD;''])) = Some 1"
  by (simp add: restore_replay_def replay_init_def replay_step_def sample_query_def Let_def)

text \<open>C5, amended. A restore that finishes its loop returns \<open>success: true\<close> together with
  the two counts, whatever the error count; a rotation whose loop ends with a non-zero error
  count throws the error that carries the count.\<close>

theorem aggregate_failure:
  "restore_success (fst (restore_replay query db stmts)) \<and>
   restore_errors (fst (restore_replay query db stmts)) =
     Some (errorCount (snd (restore_replay query db stmts))) \<and>
   statements (fst (restore_replay query db stmts)) =
     Some (successCount (snd (restore_replay query db stmts))) \<and>
   (0 < errorCount (snd (rotateEncryptionKey oldKey newKey w)) \<longrightarrow>
      fst (rotateEncryptionKey oldKey newKey w) =
        Inl (RotationFailed (errorCount (snd (rotateEncryptionKey oldKey newKey w)))))"
  using rotate_throws_on_errors [of oldKey newKey w]
  by (simp add: restore_replay_def Let_def)

text \<open>C5 at a rotation with one failing row and a restore with one failing statement.\<close>

theorem aggregate_failure_witness:
  "0 < errorCount (snd (rotateEncryptionKey test_key new_key sample_world)) \<and>
   fst (rotateEncryptionKey test_key new_key sample_world) = Inl (RotationFailed 1) \<and>
   error_message (RotationFailed 1) = ''1 key(s) failed to rotate'' \<and>
   restore_success (fst (restore_replay sample_query () [''BAD;'', ''INSERT INTO t VALUES (1);''])) \<and>
   restore_errors (fst (restore_replay sample_query () [''BAD;'', ''INSERT INTO t VALUES (1);''])) = Some 1 \<and>
   statements (fst (restore_replay sample_query () [''BAD;'', ''INSERT INTO t VALUES (1);''])) = Some 1"
proof -
  note k = key_format_samples(1) key_format_samples(3)
  have ec: "errorCount (snd (rotateEncryptionKey test_key new_key sample_world)) = 1"
    using rotate_state_fields(2) [OF k sample_world_facts(1,2)] by (simp add: sample_failures)
  have r: "errorCount (snd (restore_replay sample_query () [''BAD;'', ''INSERT INTO t VALUES (1);''])) = 1"
    "successCount (snd (restore_replay sample_query () [''BAD;'', ''INSERT INTO t VALUES (1);''])) = 1"
    by (simp_all add: restore_replay_def replay_init_def replay_step_def sample_query_def Let_def)
  show ?thesis
    using aggregate_failure [of sample_query "()" "[''BAD;'', ''INSERT INTO t VALUES (1);'']"
        test_key new_key sample_world] ec r
    by (simp add: show_nat.simps)
qed

end
